theory Spec2Isabelle
  imports Complex_Main "HOL-Library.Word"
begin

section \<open>The Python runtime the receiver relies on\<close>

text \<open>
  The receiver (\<^verbatim>\<open>rasberry_pi_4_wifi_car_en.py\<close>) turns a UDP payload into four integers
  with \<^verbatim>\<open>bytes.decode\<close>, \<^verbatim>\<open>str.strip\<close>, \<^verbatim>\<open>str.count\<close>, \<^verbatim>\<open>str.split\<close>,
  \<^verbatim>\<open>str.isdigit\<close> and \<^verbatim>\<open>int\<close>. A payload is a list of bytes, a Python \<^verbatim>\<open>str\<close> is a list
  of Unicode code points, a Python \<^verbatim>\<open>int\<close> is an unbounded integer, and a raised exception
  is the left injection of a sum.

  Python's \<^verbatim>\<open>float\<close> is modelled by the real numbers: rounding is not modelled, the one
  exception a float operation of this program can raise (an integer too large to convert)
  is.
\<close>

type_synonym byte = "8 word"
type_synonym codepoint = nat
type_synonym pystr = "codepoint list"

datatype error = ValueError | OverflowError

subsection \<open>\<^verbatim>\<open>bytes.decode("utf-8", errors="ignore")\<close>\<close>

definition is_cont :: "nat \<Rightarrow> bool" where
  "is_cont b = (0x80 \<le> b \<and> b \<le> 0xBF)"

text \<open>
  \<open>utf8_first b0 bs\<close>: the code point of the well-formed UTF-8 sequence that starts with
  the byte \<open>b0\<close> and continues in \<open>bs\<close>, with the number of continuation bytes it takes;
  \<open>None\<close> when no well-formed sequence starts here (a stray continuation byte, an
  overlong form, a surrogate, a value above U+10FFFF, a truncated sequence).
\<close>

definition utf8_first :: "nat \<Rightarrow> nat list \<Rightarrow> (codepoint \<times> nat) option" where
  "utf8_first b0 bs =
    (if b0 < 0x80 then Some (b0, 0)
     else if 0xC2 \<le> b0 \<and> b0 \<le> 0xDF then
       (case bs of
          b1 # _ \<Rightarrow>
            if is_cont b1 then Some ((b0 - 0xC0) * 64 + (b1 - 0x80), 1) else None
        | _ \<Rightarrow> None)
     else if 0xE0 \<le> b0 \<and> b0 \<le> 0xEF then
       (case bs of
          b1 # b2 # _ \<Rightarrow>
            if (if b0 = 0xE0 then 0xA0 else 0x80) \<le> b1
               \<and> b1 \<le> (if b0 = 0xED then 0x9F else 0xBF) \<and> is_cont b2
            then Some (((b0 - 0xE0) * 64 + (b1 - 0x80)) * 64 + (b2 - 0x80), 2)
            else None
        | _ \<Rightarrow> None)
     else if 0xF0 \<le> b0 \<and> b0 \<le> 0xF4 then
       (case bs of
          b1 # b2 # b3 # _ \<Rightarrow>
            if (if b0 = 0xF0 then 0x90 else 0x80) \<le> b1
               \<and> b1 \<le> (if b0 = 0xF4 then 0x8F else 0xBF) \<and> is_cont b2 \<and> is_cont b3
            then Some ((((b0 - 0xF0) * 64 + (b1 - 0x80)) * 64 + (b2 - 0x80)) * 64
                        + (b3 - 0x80), 3)
            else None
        | _ \<Rightarrow> None)
     else None)"

text \<open>
  With \<^verbatim>\<open>errors="ignore"\<close> every byte that is not part of a well-formed sequence is
  dropped and decoding goes on behind it, so decoding never fails.
\<close>

fun utf8_ignore :: "nat list \<Rightarrow> pystr" where
  "utf8_ignore [] = []"
| "utf8_ignore (b0 # bs) =
    (case utf8_first b0 bs of
       Some (cp, k) \<Rightarrow> cp # utf8_ignore (drop k bs)
     | None \<Rightarrow> utf8_ignore bs)"

definition decode_ignore :: "byte list \<Rightarrow> pystr" where
  "decode_ignore data = utf8_ignore (map unat data)"

subsection \<open>Character classes of the Unicode database (version 14.0.0, CPython 3.11)\<close>

fun in_ranges :: "(nat \<times> nat) list \<Rightarrow> nat \<Rightarrow> bool" where
  "in_ranges [] c = False"
| "in_ranges ((lo, hi) # rs) c = ((lo \<le> c \<and> c \<le> hi) \<or> in_ranges rs c)"

text \<open>The characters \<^verbatim>\<open>str.strip()\<close> removes and \<^verbatim>\<open>str.isspace()\<close> accepts.\<close>

definition space_ranges :: "(nat \<times> nat) list" where
  "space_ranges =
    [(0x0009, 0x000D), (0x001C, 0x0020), (0x0085, 0x0085), (0x00A0, 0x00A0),
     (0x1680, 0x1680), (0x2000, 0x200A), (0x2028, 0x2029), (0x202F, 0x202F),
     (0x205F, 0x205F), (0x3000, 0x3000)]"

text \<open>
  The decimal digits (general category Nd): every range is a run of digits zero to nine,
  so the digit value is the offset in the range modulo ten.
\<close>

definition decimal_ranges :: "(nat \<times> nat) list" where
  "decimal_ranges =
    [(0x0030, 0x0039), (0x0660, 0x0669), (0x06F0, 0x06F9), (0x07C0, 0x07C9),
     (0x0966, 0x096F), (0x09E6, 0x09EF), (0x0A66, 0x0A6F), (0x0AE6, 0x0AEF),
     (0x0B66, 0x0B6F), (0x0BE6, 0x0BEF), (0x0C66, 0x0C6F), (0x0CE6, 0x0CEF),
     (0x0D66, 0x0D6F), (0x0DE6, 0x0DEF), (0x0E50, 0x0E59), (0x0ED0, 0x0ED9),
     (0x0F20, 0x0F29), (0x1040, 0x1049), (0x1090, 0x1099), (0x17E0, 0x17E9),
     (0x1810, 0x1819), (0x1946, 0x194F), (0x19D0, 0x19D9), (0x1A80, 0x1A89),
     (0x1A90, 0x1A99), (0x1B50, 0x1B59), (0x1BB0, 0x1BB9), (0x1C40, 0x1C49),
     (0x1C50, 0x1C59), (0xA620, 0xA629), (0xA8D0, 0xA8D9), (0xA900, 0xA909),
     (0xA9D0, 0xA9D9), (0xA9F0, 0xA9F9), (0xAA50, 0xAA59), (0xABF0, 0xABF9),
     (0xFF10, 0xFF19), (0x104A0, 0x104A9), (0x10D30, 0x10D39), (0x11066, 0x1106F),
     (0x110F0, 0x110F9), (0x11136, 0x1113F), (0x111D0, 0x111D9), (0x112F0, 0x112F9),
     (0x11450, 0x11459), (0x114D0, 0x114D9), (0x11650, 0x11659), (0x116C0, 0x116C9),
     (0x11730, 0x11739), (0x118E0, 0x118E9), (0x11950, 0x11959), (0x11C50, 0x11C59),
     (0x11D50, 0x11D59), (0x11DA0, 0x11DA9), (0x16A60, 0x16A69), (0x16AC0, 0x16AC9),
     (0x16B50, 0x16B59), (0x1D7CE, 0x1D7FF), (0x1E140, 0x1E149), (0x1E2F0, 0x1E2F9),
     (0x1E950, 0x1E959), (0x1FBF0, 0x1FBF9)]"

text \<open>
  The characters of numeric type Digit that are not decimal: superscripts, subscripts,
  circled and parenthesised digits and the like. \<^verbatim>\<open>str.isdigit()\<close> accepts them,
  \<^verbatim>\<open>int()\<close> does not.
\<close>

definition other_digit_ranges :: "(nat \<times> nat) list" where
  "other_digit_ranges =
    [(0x00B2, 0x00B3), (0x00B9, 0x00B9), (0x1369, 0x1371), (0x19DA, 0x19DA),
     (0x2070, 0x2070), (0x2074, 0x2079), (0x2080, 0x2089), (0x2460, 0x2468),
     (0x2474, 0x247C), (0x2488, 0x2490), (0x24EA, 0x24EA), (0x24F5, 0x24FD),
     (0x24FF, 0x24FF), (0x2776, 0x277E), (0x2780, 0x2788), (0x278A, 0x2792),
     (0x10A40, 0x10A43), (0x10E60, 0x10E68), (0x11052, 0x1105A), (0x1F100, 0x1F10A)]"

definition ch_isspace :: "codepoint \<Rightarrow> bool" where
  "ch_isspace c = in_ranges space_ranges c"

definition ch_isdecimal :: "codepoint \<Rightarrow> bool" where
  "ch_isdecimal c = in_ranges decimal_ranges c"

definition ch_isdigit :: "codepoint \<Rightarrow> bool" where
  "ch_isdigit c = (ch_isdecimal c \<or> in_ranges other_digit_ranges c)"

fun range_digit :: "(nat \<times> nat) list \<Rightarrow> nat \<Rightarrow> nat" where
  "range_digit [] c = 0"
| "range_digit ((lo, hi) # rs) c =
    (if lo \<le> c \<and> c \<le> hi then (c - lo) mod 10 else range_digit rs c)"

definition ch_decimal :: "codepoint \<Rightarrow> nat" where
  "ch_decimal c = range_digit decimal_ranges c"

subsection \<open>The string methods\<close>

definition py_strip :: "pystr \<Rightarrow> pystr" where
  "py_strip s = rev (dropWhile ch_isspace (rev (dropWhile ch_isspace s)))"

definition comma :: codepoint where
  "comma = 0x2C"

definition py_count :: "pystr \<Rightarrow> codepoint \<Rightarrow> nat" where
  "py_count s c = count_list s c"

text \<open>\<^verbatim>\<open>s.split(sep)\<close> for a one-character separator: never the empty list.\<close>

fun py_split :: "codepoint \<Rightarrow> pystr \<Rightarrow> pystr list" where
  "py_split sep [] = [[]]"
| "py_split sep (c # cs) =
    (if c = sep then [] # py_split sep cs
     else (case py_split sep cs of
             f # fs \<Rightarrow> (c # f) # fs
           | [] \<Rightarrow> [[c]]))"

definition py_isdigit :: "pystr \<Rightarrow> bool" where
  "py_isdigit s = (s \<noteq> [] \<and> list_all ch_isdigit s)"

definition int_max_str_digits :: nat where
  "int_max_str_digits = 4300"

definition digits_value :: "pystr \<Rightarrow> int" where
  "digits_value s = foldl (\<lambda>acc c. 10 * acc + int (ch_decimal c)) 0 s"

text \<open>
  \<^verbatim>\<open>int(s)\<close> on a string that passed \<^verbatim>\<open>s.isdigit()\<close> (so: not empty, no sign, no
  blank, no underscore): every character must be a decimal digit, and CPython refuses a
  string of more than 4300 digits; both failures raise \<^verbatim>\<open>ValueError\<close>.
\<close>

definition py_int :: "pystr \<Rightarrow> error + int" where
  "py_int s =
    (if \<not> list_all ch_isdecimal s then Inl ValueError
     else if int_max_str_digits < length s then Inl ValueError
     else Inr (digits_value s))"

section \<open>The input decoder\<close>

text \<open>
  \<^verbatim>\<open>parse_packet\<close>: \<open>Inr None\<close> is the source's \<^verbatim>\<open>return None\<close>, \<open>Inr (Some r)\<close>
  a reading, \<open>Inl e\<close> an exception that leaves the function. The unpacking
  \<^verbatim>\<open>b1, b2, x_raw, y_raw = text.split(",")[:4]\<close> raises \<^verbatim>\<open>ValueError\<close> on a list
  that has not four elements.
\<close>

type_synonym reading = "int \<times> int \<times> int \<times> int"

definition parse_packet :: "byte list \<Rightarrow> error + reading option" where
  "parse_packet data =
    (let text = py_strip (decode_ignore data) in
     if py_count text comma < 3 then Inr None
     else
       (case take 4 (py_split comma text) of
          [b1, b2, x_raw, y_raw] \<Rightarrow>
            if \<not> (py_isdigit b1 \<and> py_isdigit b2 \<and> py_isdigit x_raw \<and> py_isdigit y_raw)
            then Inr None
            else
              (case py_int b1 of Inl e \<Rightarrow> Inl e | Inr i1 \<Rightarrow>
              (case py_int b2 of Inl e \<Rightarrow> Inl e | Inr i2 \<Rightarrow>
              (case py_int x_raw of Inl e \<Rightarrow> Inl e | Inr ix \<Rightarrow>
              (case py_int y_raw of Inl e \<Rightarrow> Inl e | Inr iy \<Rightarrow>
                 Inr (Some (i1, i2, ix, iy))))))
        | _ \<Rightarrow> Inl ValueError))"

section \<open>Input shaping\<close>

text \<open>
  \<^verbatim>\<open>v / 65535.0\<close> converts the integer \<open>v\<close> to a float first, and that conversion
  raises \<^verbatim>\<open>OverflowError\<close> for an integer that rounds beyond the largest double, that
  is from \<open>2^1024 - 2^970\<close> on.
\<close>

definition float_limit :: int where
  "float_limit = 2 ^ 1024 - 2 ^ 970"

definition to_float :: "int \<Rightarrow> error + real" where
  "to_float v = (if float_limit \<le> \<bar>v\<bar> then Inl OverflowError else Inr (real_of_int v))"

definition adc_to_unit :: "int \<Rightarrow> real \<Rightarrow> error + real" where
  "adc_to_unit v deadzone =
    (case to_float v of
       Inl e \<Rightarrow> Inl e
     | Inr f \<Rightarrow>
         (let u = (f / 65535) * 2 - 1
          in Inr (if \<bar>u\<bar> < deadzone then 0 else max (- 1) (min 1 u))))"

definition apply_expo :: "real \<Rightarrow> real \<Rightarrow> real" where
  "apply_expo u k = (1 - k) * u + k * (u ^ 3)"

text \<open>\<^verbatim>\<open>int(x)\<close> on a float truncates towards zero.\<close>

definition py_trunc :: "real \<Rightarrow> int" where
  "py_trunc x = (if 0 \<le> x then \<lfloor>x\<rfloor> else \<lceil>x\<rceil>)"

section \<open>The GPIO daemon\<close>

text \<open>
  The pigpio connection \<^verbatim>\<open>pi\<close> is the state of the lines it drives (the level of a
  digital output, the PWM duty cycle and the servo pulse width of a pin) together with
  the list of the calls made so far, oldest first. The mode and the PWM frequency of a
  pin are set once at startup and appear in the list of calls only.
\<close>

datatype gpio_call =
    Set_mode_output nat
  | Write nat nat
  | Set_PWM_frequency nat int
  | Set_PWM_dutycycle nat int
  | Set_servo_pulsewidth nat int

record pi_state =
  level :: "nat \<Rightarrow> nat"
  dutycycle :: "nat \<Rightarrow> int"
  pulsewidth :: "nat \<Rightarrow> int"
  calls :: "gpio_call list"

definition set_mode_output :: "nat \<Rightarrow> pi_state \<Rightarrow> pi_state" where
  "set_mode_output pin p = p\<lparr>calls := calls p @ [Set_mode_output pin]\<rparr>"

definition set_PWM_frequency :: "nat \<Rightarrow> int \<Rightarrow> pi_state \<Rightarrow> pi_state" where
  "set_PWM_frequency pin f p = p\<lparr>calls := calls p @ [Set_PWM_frequency pin f]\<rparr>"

definition pi_write :: "nat \<Rightarrow> nat \<Rightarrow> pi_state \<Rightarrow> pi_state" where
  "pi_write pin v p = p\<lparr>level := (level p)(pin := v), calls := calls p @ [Write pin v]\<rparr>"

definition set_PWM_dutycycle :: "nat \<Rightarrow> int \<Rightarrow> pi_state \<Rightarrow> pi_state" where
  "set_PWM_dutycycle pin d p =
    p\<lparr>dutycycle := (dutycycle p)(pin := d), calls := calls p @ [Set_PWM_dutycycle pin d]\<rparr>"

definition set_servo_pulsewidth :: "nat \<Rightarrow> int \<Rightarrow> pi_state \<Rightarrow> pi_state" where
  "set_servo_pulsewidth pin us p =
    p\<lparr>pulsewidth := (pulsewidth p)(pin := us),
      calls := calls p @ [Set_servo_pulsewidth pin us]\<rparr>"

definition EN_L :: nat where "EN_L = 12"
definition IN1_L :: nat where "IN1_L = 5"
definition IN2_L :: nat where "IN2_L = 6"
definition EN_R :: nat where "EN_R = 13"
definition IN1_R :: nat where "IN1_R = 23"
definition IN2_R :: nat where "IN2_R = 24"
definition SERVO_PIN :: nat where "SERVO_PIN = 18"

section \<open>Actuator commands\<close>

definition set_motor :: "nat \<Rightarrow> nat \<Rightarrow> nat \<Rightarrow> real \<Rightarrow> pi_state \<Rightarrow> pi_state" where
  "set_motor dir_a dir_b en val0 p =
    (let val = max (- 1) (min 1 val0);
         p1 = (if val > 0 then pi_write dir_b 0 (pi_write dir_a 1 p)
               else if val < 0 then pi_write dir_b 1 (pi_write dir_a 0 p)
               else pi_write dir_b 0 (pi_write dir_a 0 p))
     in set_PWM_dutycycle en (py_trunc (\<bar>val\<bar> * 255)) p1)"

definition brake :: "nat \<Rightarrow> nat \<Rightarrow> nat \<Rightarrow> pi_state \<Rightarrow> pi_state" where
  "brake dir_a dir_b en p = set_PWM_dutycycle en 0 (pi_write dir_b 1 (pi_write dir_a 1 p))"

definition servo_from_x :: "real \<Rightarrow> nat \<Rightarrow> pi_state \<Rightarrow> pi_state" where
  "servo_from_x x pin p =
    (let us = py_trunc (1500 + x * 1000)
     in set_servo_pulsewidth pin (max 500 (min 2500 us)) p)"

definition stop_all :: "pi_state \<Rightarrow> pi_state" where
  "stop_all p =
    set_servo_pulsewidth SERVO_PIN 1500
      (brake IN1_R IN2_R EN_R (brake IN1_L IN2_L EN_L p))"

section \<open>The control loop\<close>

text \<open>
  The options of the command line that the loop reads. The loop's own state is the GPIO
  connection and the time of the last reading, \<^verbatim>\<open>last_ok\<close>.
\<close>

record config =
  deadzone :: real
  base_speed :: real
  turbo_speed :: real
  expo :: real
  pwm_freq :: int
  failsafe :: real

record loop_state =
  pi :: pi_state
  last_ok :: real

text \<open>
  The setup before the loop: the direction lines low, the enable lines at zero duty, the
  servo centred, and \<^verbatim>\<open>last_ok\<close> set to the clock reading \<open>now\<close>.
\<close>

definition startup :: "config \<Rightarrow> pi_state \<Rightarrow> real \<Rightarrow> loop_state" where
  "startup cfg p now =
    (let p1 = fold (\<lambda>pin q. pi_write pin 0 (set_mode_output pin q))
                [IN1_L, IN2_L, IN1_R, IN2_R] p;
         p2 = fold (\<lambda>pin q. set_PWM_dutycycle pin 0
                              (set_PWM_frequency pin (pwm_freq cfg) (set_mode_output pin q)))
                [EN_L, EN_R] p1;
         p3 = set_servo_pulsewidth SERVO_PIN 1500 (set_mode_output SERVO_PIN p2)
     in \<lparr>pi = p3, last_ok = now\<rparr>)"

text \<open>
  One pass of \<^verbatim>\<open>while True\<close> is driven by what \<^verbatim>\<open>sock.recvfrom(256)\<close> does and by what
  the clock shows when the pass reads it:
  \<^item> \<open>Timeout now\<close>: no datagram within the 0.1 s receive timeout; \<open>now\<close> is
    \<^verbatim>\<open>time.time()\<close> in the handler of \<^verbatim>\<open>socket.timeout\<close>;
  \<^item> \<open>Datagram payload t_ok t_chk\<close>: a datagram arrived; \<open>t_ok\<close> is \<^verbatim>\<open>time.time()\<close>
    where \<^verbatim>\<open>last_ok\<close> is assigned and \<open>t_chk\<close> is \<^verbatim>\<open>time.time()\<close> at the failsafe
    check that ends the pass. A pass that drops the datagram reads neither.
\<close>

datatype event =
    Timeout real
  | Datagram "byte list" real real

definition recvfrom :: "nat \<Rightarrow> byte list \<Rightarrow> byte list" where
  "recvfrom bufsize payload = take bufsize payload"

text \<open>The mixing of the two shaped axes into the left and the right motor value.\<close>

definition tank_mix :: "real \<Rightarrow> real \<Rightarrow> real \<Rightarrow> real \<times> real" where
  "tank_mix x_unit y_unit max_speed =
    (max (- 1) (min 1 (y_unit + x_unit)) * max_speed,
     max (- 1) (min 1 (y_unit - x_unit)) * max_speed)"

text \<open>The commands of a pass for a reading: speed mode, brake or drive, then the servo.\<close>

definition drive :: "config \<Rightarrow> int \<Rightarrow> int \<Rightarrow> real \<Rightarrow> real \<Rightarrow> pi_state \<Rightarrow> pi_state" where
  "drive cfg b1 b2 x_unit y_unit p =
    (let max_speed = (if b1 = 0 then turbo_speed cfg else base_speed cfg);
         p1 = (if b2 = 0 then brake IN1_R IN2_R EN_R (brake IN1_L IN2_L EN_L p)
               else (case tank_mix x_unit y_unit max_speed of
                       (left, right) \<Rightarrow>
                         set_motor IN1_R IN2_R EN_R right
                           (set_motor IN1_L IN2_L EN_L left p)))
     in servo_from_x x_unit SERVO_PIN p1)"

definition iteration :: "config \<Rightarrow> loop_state \<Rightarrow> event \<Rightarrow> error + loop_state" where
  "iteration cfg st ev =
    (case ev of
       Timeout now \<Rightarrow>
         Inr (if now - last_ok st > failsafe cfg then st\<lparr>pi := stop_all (pi st)\<rparr> else st)
     | Datagram payload t_ok t_chk \<Rightarrow>
         (case parse_packet (recvfrom 256 payload) of
            Inl e \<Rightarrow> Inl e
          | Inr None \<Rightarrow> Inr st
          | Inr (Some (b1, b2, x_raw, y_raw)) \<Rightarrow>
              (case adc_to_unit x_raw (deadzone cfg) of
                 Inl e \<Rightarrow> Inl e
               | Inr ux \<Rightarrow>
                   (case adc_to_unit y_raw (deadzone cfg) of
                      Inl e \<Rightarrow> Inl e
                    | Inr uy \<Rightarrow>
                        (let x_unit = apply_expo ux (expo cfg);
                             y_unit = apply_expo uy (expo cfg);
                             p1 = drive cfg b1 b2 x_unit y_unit (pi st);
                             p2 = (if t_chk - t_ok > failsafe cfg then stop_all p1 else p1)
                         in Inr \<lparr>pi = p2, last_ok = t_ok\<rparr>)))))"

text \<open>
  The loop over the passes. An exception that leaves a pass is not caught by
  \<^verbatim>\<open>except KeyboardInterrupt\<close>: it ends the loop, the \<^verbatim>\<open>finally\<close> block stops the
  actuators and switches the servo signal off, and the process dies with the exception.
  The interrupt from the keyboard, which ends the loop through the same block, is not
  among the events.
\<close>

definition shutdown :: "pi_state \<Rightarrow> pi_state" where
  "shutdown p = set_servo_pulsewidth SERVO_PIN 0 (stop_all p)"

fun run :: "config \<Rightarrow> loop_state \<Rightarrow> event list \<Rightarrow> (error \<times> pi_state) + loop_state" where
  "run cfg st [] = Inr st"
| "run cfg st (ev # evs) =
    (case iteration cfg st ev of
       Inl e \<Rightarrow> Inl (e, shutdown (pi st))
     | Inr st' \<Rightarrow> run cfg st' evs)"

text \<open>What the specification calls the safe state of the actuators.\<close>

definition motor_braked :: "nat \<Rightarrow> nat \<Rightarrow> nat \<Rightarrow> pi_state \<Rightarrow> bool" where
  "motor_braked dir_a dir_b en p = (level p dir_a = 1 \<and> level p dir_b = 1 \<and> dutycycle p en = 0)"

definition safe_state :: "pi_state \<Rightarrow> bool" where
  "safe_state p =
    (motor_braked IN1_L IN2_L EN_L p \<and> motor_braked IN1_R IN2_R EN_R p
     \<and> pulsewidth p SERVO_PIN = 1500)"

section \<open>Vocabulary of the properties\<close>

text \<open>The defaults of the command line options.\<close>

definition defaults :: config where
  "defaults =
    \<lparr>deadzone = 0.08, base_speed = 0.60, turbo_speed = 1.00, expo = 0.6,
     pwm_freq = 20000, failsafe = 0.5\<rparr>"

text \<open>A connection on which no call has been made yet, every line at zero.\<close>

definition fresh_pi :: pi_state where
  "fresh_pi = \<lparr>level = (\<lambda>pin. 0), dutycycle = (\<lambda>pin. 0), pulsewidth = (\<lambda>pin. 0), calls = []\<rparr>"

text \<open>The calls that \<^verbatim>\<open>brake\<close> and \<^verbatim>\<open>stop_all\<close> are expected to make, in their order.\<close>

definition brake_calls :: "nat \<Rightarrow> nat \<Rightarrow> nat \<Rightarrow> gpio_call list" where
  "brake_calls dir_a dir_b en = [Write dir_a 1, Write dir_b 1, Set_PWM_dutycycle en 0]"

definition stop_all_calls :: "gpio_call list" where
  "stop_all_calls =
    brake_calls IN1_L IN2_L EN_L @ brake_calls IN1_R IN2_R EN_R
    @ [Set_servo_pulsewidth SERVO_PIN 1500]"

text \<open>
  The calls a pass with a reading is expected to make: for each motor the two direction
  lines and the duty cycle of the clamped value (or the brake), then the servo pulse of
  the shaped horizontal axis.
\<close>

definition motor_calls :: "nat \<Rightarrow> nat \<Rightarrow> nat \<Rightarrow> real \<Rightarrow> gpio_call list" where
  "motor_calls dir_a dir_b en val =
    [Write dir_a (if 0 < max (- 1) (min 1 val) then 1 else 0),
     Write dir_b (if max (- 1) (min 1 val) < 0 then 1 else 0),
     Set_PWM_dutycycle en (py_trunc (\<bar>max (- 1) (min 1 val)\<bar> * 255))]"

definition servo_call :: "real \<Rightarrow> gpio_call" where
  "servo_call x = Set_servo_pulsewidth SERVO_PIN (max 500 (min 2500 (py_trunc (1500 + x * 1000))))"

definition reading_calls :: "config \<Rightarrow> int \<Rightarrow> int \<Rightarrow> real \<Rightarrow> real \<Rightarrow> gpio_call list" where
  "reading_calls cfg b1 b2 x_unit y_unit =
    (if b2 = 0 then brake_calls IN1_L IN2_L EN_L @ brake_calls IN1_R IN2_R EN_R
     else motor_calls IN1_L IN2_L EN_L
            (fst (tank_mix x_unit y_unit (if b1 = 0 then turbo_speed cfg else base_speed cfg)))
          @ motor_calls IN1_R IN2_R EN_R
            (snd (tank_mix x_unit y_unit (if b1 = 0 then turbo_speed cfg else base_speed cfg))))
    @ [servo_call x_unit]"

text \<open>
  The ranges the driver is to see: a logic level, a duty cycle of 0 to 255, a servo pulse
  of 500 to 2500 microseconds.
\<close>

fun call_in_range :: "gpio_call \<Rightarrow> bool" where
  "call_in_range (Set_mode_output pin) = True"
| "call_in_range (Write pin v) = (v \<le> 1)"
| "call_in_range (Set_PWM_frequency pin f) = True"
| "call_in_range (Set_PWM_dutycycle pin d) = (0 \<le> d \<and> d \<le> 255)"
| "call_in_range (Set_servo_pulsewidth pin us) = (500 \<le> us \<and> us \<le> 2500)"

text \<open>
  A pass without a reading once the failsafe window after \<open>t0\<close> is over: a receive
  timeout whose clock reading is beyond the window, or a datagram that is dropped. Such a
  pass is expected to make the calls \<open>tick_calls\<close>.
\<close>

fun silent :: "config \<Rightarrow> real \<Rightarrow> event \<Rightarrow> bool" where
  "silent cfg t0 (Timeout now) = (now - t0 > failsafe cfg)"
| "silent cfg t0 (Datagram payload t_ok t_chk) =
    (parse_packet (recvfrom 256 payload) = Inr None)"

text \<open>
  A field written in ASCII digits, the number it denotes, and the payload of four fields
  with commas between them, as the sender formats it.
\<close>

definition ascii_digits :: "byte list \<Rightarrow> bool" where
  "ascii_digits bs = (bs \<noteq> [] \<and> list_all (\<lambda>b. 0x30 \<le> unat b \<and> unat b \<le> 0x39) bs)"

definition dec_value :: "byte list \<Rightarrow> int" where
  "dec_value bs = foldl (\<lambda>a b. 10 * a + (int (unat b) - 48)) 0 bs"

definition csv4 :: "byte list \<Rightarrow> byte list \<Rightarrow> byte list \<Rightarrow> byte list \<Rightarrow> byte list" where
  "csv4 f1 f2 fx fy = f1 @ [0x2C] @ f2 @ [0x2C] @ fx @ [0x2C] @ fy"

text \<open>A pass that receives a datagram and drops it.\<close>

fun dropped :: "event \<Rightarrow> bool" where
  "dropped (Timeout now) = False"
| "dropped (Datagram payload t_ok t_chk) = (parse_packet (recvfrom 256 payload) = Inr None)"

fun tick_calls :: "event \<Rightarrow> gpio_call list" where
  "tick_calls (Timeout now) = stop_all_calls"
| "tick_calls (Datagram payload t_ok t_chk) = []"

section \<open>Facts about the decoder\<close>

lemma py_split_length: "length (py_split sep s) = Suc (count_list s sep)"
  by (induction s) (auto split: list.splits)

lemma py_split_field_length: "f \<in> set (py_split sep s) \<Longrightarrow> length f \<le> length s"
proof (induction s arbitrary: f)
  case Nil
  then show ?case by simp
next
  case (Cons c cs)
  show ?case
  proof (cases "c = sep")
    case True
    with Cons show ?thesis by (auto simp: le_SucI)
  next
    case False
    show ?thesis
    proof (cases "py_split sep cs")
      case Nil
      with Cons.prems False show ?thesis by simp
    next
      case (Cons g gs)
      with Cons.prems False have "f = c # g \<or> f \<in> set gs" by simp
      moreover have "length g \<le> length cs" using Cons.IH [of g] Cons by simp
      moreover have "f \<in> set gs \<Longrightarrow> length f \<le> length cs" using Cons.IH [of f] Cons by simp
      ultimately show ?thesis by auto
    qed
  qed
qed

lemma utf8_ignore_length: "length (utf8_ignore bs) \<le> length bs"
proof (induction bs rule: utf8_ignore.induct)
  case 1
  then show ?case by simp
next
  case (2 b0 bs)
  show ?case
  proof (cases "utf8_first b0 bs")
    case None
    with 2 show ?thesis by simp
  next
    case (Some r)
    obtain cp k where r: "r = (cp, k)" by (cases r)
    have "length (utf8_ignore (drop k bs)) \<le> length (drop k bs)"
      using 2(2) [OF Some [unfolded r] refl] by simp
    with Some r show ?thesis by simp
  qed
qed

lemma py_strip_length: "length (py_strip s) \<le> length s"
proof -
  have "length (py_strip s) \<le> length (dropWhile ch_isspace s)"
    unfolding py_strip_def using length_dropWhile_le [of ch_isspace "rev (dropWhile ch_isspace s)"] by simp
  also have "\<dots> \<le> length s" by (rule length_dropWhile_le)
  finally show ?thesis .
qed

lemma range_digit_le: "range_digit rs c \<le> 9"
  by (induction rs c rule: range_digit.induct) (auto simp: Suc_le_eq [symmetric] intro: less_Suc_eq_le [THEN iffD1])

lemma float_limit_big: "(10::int) ^ 256 < float_limit"
  by (simp add: float_limit_def)


lemma ch_decimal_le: "ch_decimal c \<le> 9"
  by (simp add: ch_decimal_def range_digit_le)

lemma foldl_digits_bound:
  "0 \<le> acc \<Longrightarrow>
    0 \<le> foldl (\<lambda>a c. 10 * a + int (ch_decimal c)) acc s
    \<and> foldl (\<lambda>a c. 10 * a + int (ch_decimal c)) acc s < (acc + 1) * 10 ^ length s"
proof (induction s arbitrary: acc)
  case Nil
  then show ?case by simp
next
  case (Cons c cs)
  let ?a = "10 * acc + int (ch_decimal c)"
  have d: "int (ch_decimal c) \<le> 9" using ch_decimal_le [of c] by simp
  have a0: "0 \<le> ?a" using Cons.prems by simp
  have step: "?a + 1 \<le> 10 * (acc + 1)" using d by simp
  have le: "(?a + 1) * 10 ^ length cs \<le> (10 * (acc + 1)) * 10 ^ length cs"
    using step by (intro mult_right_mono) simp_all
  have eq: "(10 * (acc + 1)) * 10 ^ length cs = (acc + 1) * 10 ^ length (c # cs)"
    by simp
  from Cons.IH [OF a0]
  have lo: "0 \<le> foldl (\<lambda>a c. 10 * a + int (ch_decimal c)) ?a cs"
    and hi: "foldl (\<lambda>a c. 10 * a + int (ch_decimal c)) ?a cs < (?a + 1) * 10 ^ length cs"
    by simp_all
  from hi le have "foldl (\<lambda>a c. 10 * a + int (ch_decimal c)) ?a cs
      < (10 * (acc + 1)) * 10 ^ length cs" by (rule less_le_trans)
  then have "foldl (\<lambda>a c. 10 * a + int (ch_decimal c)) ?a cs
      < (acc + 1) * 10 ^ length (c # cs)" unfolding eq .
  with lo show ?case by simp
qed

lemma digits_value_bound: "0 \<le> digits_value s \<and> digits_value s < 10 ^ length s"
  using foldl_digits_bound [of 0 s] by (simp add: digits_value_def)

lemma py_int_bound:
  assumes "py_int s = Inr v"
  shows "0 \<le> v \<and> v < 10 ^ length s"
  using assms digits_value_bound [of s] by (auto simp: py_int_def split: if_splits)

lemma list_of_length_4: "length xs = 4 \<Longrightarrow> \<exists>a b c d. xs = [a, b, c, d]"
  by (auto simp: eval_nat_numeral length_Suc_conv)

lemma fields_of_text:
  assumes "\<not> py_count text comma < 3"
  shows "\<exists>a b c d. take 4 (py_split comma text) = [a, b, c, d]"
proof -
  have "4 \<le> length (py_split comma text)"
    using assms by (simp add: py_split_length py_count_def)
  then have "length (take 4 (py_split comma text)) = 4" by simp
  then show ?thesis by (rule list_of_length_4)
qed

lemma parse_packet_invalid_iff:
  "parse_packet data = Inr None \<longleftrightarrow>
    (py_count (py_strip (decode_ignore data)) comma < 3
     \<or> \<not> list_all py_isdigit (take 4 (py_split comma (py_strip (decode_ignore data)))))"
proof (cases "py_count (py_strip (decode_ignore data)) comma < 3")
  case True
  then show ?thesis by (simp add: parse_packet_def)
next
  case False
  from fields_of_text [OF False] obtain a b c d
    where f: "take 4 (py_split comma (py_strip (decode_ignore data))) = [a, b, c, d]" by blast
  show ?thesis using False f
    by (simp add: parse_packet_def split: sum.splits)
qed

lemma parse_packet_reading_iff:
  "parse_packet data = Inr (Some r) \<longleftrightarrow>
    (\<not> py_count (py_strip (decode_ignore data)) comma < 3
     \<and> (\<exists>b1 b2 x_raw y_raw.
           take 4 (py_split comma (py_strip (decode_ignore data))) = [b1, b2, x_raw, y_raw]
           \<and> py_isdigit b1 \<and> py_isdigit b2 \<and> py_isdigit x_raw \<and> py_isdigit y_raw
           \<and> (\<exists>i1 i2 ix iy. py_int b1 = Inr i1 \<and> py_int b2 = Inr i2 \<and> py_int x_raw = Inr ix
                 \<and> py_int y_raw = Inr iy \<and> r = (i1, i2, ix, iy))))"
proof (cases "py_count (py_strip (decode_ignore data)) comma < 3")
  case True
  then show ?thesis by (simp add: parse_packet_def)
next
  case False
  from fields_of_text [OF False] obtain a b c d
    where f: "take 4 (py_split comma (py_strip (decode_ignore data))) = [a, b, c, d]" by blast
  show ?thesis using False f
    by (auto simp: parse_packet_def split: sum.splits)
qed

text \<open>The decoder raises exactly on a field that passes the digit check and that \<^verbatim>\<open>int\<close> refuses.\<close>

lemma py_int_raises_iff:
  "py_int s = Inl e \<longleftrightarrow>
     e = ValueError \<and> (\<not> list_all ch_isdecimal s \<or> int_max_str_digits < length s)"
  by (auto simp: py_int_def)

lemma parse_packet_raises_iff:
  "parse_packet data = Inl e \<longleftrightarrow>
    (e = ValueError
     \<and> \<not> py_count (py_strip (decode_ignore data)) comma < 3
     \<and> list_all py_isdigit (take 4 (py_split comma (py_strip (decode_ignore data))))
     \<and> \<not> list_all (\<lambda>f. list_all ch_isdecimal f \<and> length f \<le> int_max_str_digits)
            (take 4 (py_split comma (py_strip (decode_ignore data)))))"
proof (cases "py_count (py_strip (decode_ignore data)) comma < 3")
  case True
  then show ?thesis by (simp add: parse_packet_def)
next
  case False
  from fields_of_text [OF False] obtain a b c d
    where f: "take 4 (py_split comma (py_strip (decode_ignore data))) = [a, b, c, d]" by blast
  show ?thesis using False f
    by (auto simp: parse_packet_def py_int_def split: sum.splits if_splits)
qed

lemma field_length:
  assumes "f \<in> set (take 4 (py_split comma (py_strip (decode_ignore data))))"
  shows "length f \<le> length data"
proof -
  from assms have "f \<in> set (py_split comma (py_strip (decode_ignore data)))"
    by (rule in_set_takeD)
  then have "length f \<le> length (py_strip (decode_ignore data))"
    by (rule py_split_field_length)
  also have "\<dots> \<le> length (decode_ignore data)" by (rule py_strip_length)
  also have "\<dots> \<le> length data"
    using utf8_ignore_length [of "map unat data"] by (simp add: decode_ignore_def)
  finally show ?thesis .
qed

lemma reading_bound:
  assumes "parse_packet data = Inr (Some (b1, b2, x, y))"
  shows "0 \<le> b1 \<and> 0 \<le> b2 \<and> 0 \<le> x \<and> x < 10 ^ length data \<and> 0 \<le> y \<and> y < 10 ^ length data"
proof -
  from assms obtain f1 f2 fx fy where
    f: "take 4 (py_split comma (py_strip (decode_ignore data))) = [f1, f2, fx, fy]"
    and i: "py_int f1 = Inr b1" "py_int f2 = Inr b2" "py_int fx = Inr x" "py_int fy = Inr y"
    unfolding parse_packet_reading_iff by auto
  have lx: "length fx \<le> length data" and ly: "length fy \<le> length data"
    using field_length [of fx data] field_length [of fy data] f by simp_all
  have px: "(10::int) ^ length fx \<le> 10 ^ length data"
    by (rule power_increasing [OF lx]) simp
  have py: "(10::int) ^ length fy \<le> 10 ^ length data"
    by (rule power_increasing [OF ly]) simp
  have "x < 10 ^ length data"
    using py_int_bound [OF i(3)] px by (meson less_le_trans)
  moreover have "y < 10 ^ length data"
    using py_int_bound [OF i(4)] py by (meson less_le_trans)
  ultimately show ?thesis
    using py_int_bound [OF i(1)] py_int_bound [OF i(2)] py_int_bound [OF i(3)]
      py_int_bound [OF i(4)] by blast
qed

lemma received_reading_bound:
  assumes "parse_packet (recvfrom 256 payload) = Inr (Some (b1, b2, x, y))"
  shows "0 \<le> x \<and> x < float_limit \<and> 0 \<le> y \<and> y < float_limit"
proof -
  have len: "length (recvfrom 256 payload) \<le> 256" by (simp add: recvfrom_def)
  have "(10::int) ^ length (recvfrom 256 payload) \<le> 10 ^ 256"
    by (rule power_increasing [OF len]) simp
  then have lim: "(10::int) ^ length (recvfrom 256 payload) < float_limit"
    using float_limit_big by (rule le_less_trans)
  from reading_bound [OF assms]
  have "0 \<le> x" "x < 10 ^ length (recvfrom 256 payload)"
    "0 \<le> y" "y < 10 ^ length (recvfrom 256 payload)" by blast+
  with lim show ?thesis by (meson less_trans)
qed

section \<open>Facts about shaping and the actuator commands\<close>

lemma adc_to_unit_range:
  assumes "adc_to_unit v d = Inr u"
  shows "- 1 \<le> u \<and> u \<le> 1"
  using assms by (auto simp: adc_to_unit_def Let_def split: sum.splits if_splits)

lemma adc_to_unit_returns:
  assumes "\<bar>v\<bar> < float_limit"
  shows "\<exists>u. adc_to_unit v d = Inr u"
  using assms by (simp add: adc_to_unit_def to_float_def Let_def)

lemma cube_abs_le_one:
  fixes u :: real
  assumes "\<bar>u\<bar> \<le> 1"
  shows "\<bar>u ^ 3\<bar> \<le> 1"
proof -
  have "\<bar>u\<bar> ^ 3 \<le> 1" using assms by (intro power_le_one) simp_all
  then show ?thesis by (simp add: power_abs)
qed

lemma apply_expo_range:
  assumes u: "- 1 \<le> u" "u \<le> 1" and k: "0 \<le> k" "k \<le> 1"
  shows "- 1 \<le> apply_expo u k \<and> apply_expo u k \<le> 1"
proof -
  have c: "\<bar>u ^ 3\<bar> \<le> 1" using u by (intro cube_abs_le_one) simp
  have a: "\<bar>(1 - k) * u\<bar> \<le> 1 - k"
    using u k by (simp add: abs_mult mult_left_le)
  have b: "\<bar>k * u ^ 3\<bar> \<le> k"
    using c k by (simp add: abs_mult mult_left_le)
  have "\<bar>apply_expo u k\<bar> \<le> \<bar>(1 - k) * u\<bar> + \<bar>k * u ^ 3\<bar>"
    unfolding apply_expo_def by (rule abs_triangle_ineq)
  with a b have "\<bar>apply_expo u k\<bar> \<le> 1" by linarith
  then show ?thesis by (simp add: abs_le_iff)
qed

lemma py_trunc_duty:
  assumes "0 \<le> m" "m \<le> 1"
  shows "0 \<le> py_trunc (m * 255) \<and> py_trunc (m * 255) \<le> 255"
proof -
  have "m * 255 < 256" using assms by linarith
  then have "\<lfloor>m * 255\<rfloor> < 256" by (simp add: floor_less_iff)
  moreover have "0 \<le> \<lfloor>m * 255\<rfloor>" using assms by simp
  ultimately show ?thesis using assms by (simp add: py_trunc_def)
qed

lemmas pins = EN_L_def IN1_L_def IN2_L_def EN_R_def IN1_R_def IN2_R_def SERVO_PIN_def
lemmas gpio_defs = pi_write_def set_PWM_dutycycle_def set_servo_pulsewidth_def

lemma calls_brake: "calls (brake dir_a dir_b en p) = calls p @ brake_calls dir_a dir_b en"
  by (simp add: brake_def brake_calls_def gpio_defs)

lemma calls_stop_all: "calls (stop_all p) = calls p @ stop_all_calls"
  by (simp add: stop_all_def stop_all_calls_def calls_brake gpio_defs)

lemma safe_state_stop_all: "safe_state (stop_all p)"
  by (simp add: safe_state_def motor_braked_def stop_all_def brake_def gpio_defs pins)

lemma motors_braked_after_brake:
  "motor_braked IN1_L IN2_L EN_L (brake IN1_R IN2_R EN_R (brake IN1_L IN2_L EN_L p))
   \<and> motor_braked IN1_R IN2_R EN_R (brake IN1_R IN2_R EN_R (brake IN1_L IN2_L EN_L p))"
  by (simp add: motor_braked_def brake_def gpio_defs pins)

lemma calls_servo_from_x:
  "calls (servo_from_x x pin p)
    = calls p @ [Set_servo_pulsewidth pin (max 500 (min 2500 (py_trunc (1500 + x * 1000))))]"
  by (simp add: servo_from_x_def gpio_defs Let_def)

lemma servo_from_x_keeps_motors:
  "motor_braked dir_a dir_b en (servo_from_x x pin p) = motor_braked dir_a dir_b en p"
  by (simp add: servo_from_x_def motor_braked_def gpio_defs Let_def)

lemma calls_set_motor:
  "\<exists>a b d. calls (set_motor dir_a dir_b en val p)
            = calls p @ [Write dir_a a, Write dir_b b, Set_PWM_dutycycle en d]
          \<and> a \<le> 1 \<and> b \<le> 1 \<and> 0 \<le> d \<and> d \<le> 255"
proof -
  let ?v = "max (- 1) (min 1 val)"
  have m: "0 \<le> \<bar>?v\<bar>" "\<bar>?v\<bar> \<le> 1" by auto
  from py_trunc_duty [OF m] show ?thesis
    by (simp add: set_motor_def gpio_defs Let_def)
qed

lemma list_all_stop_all_calls: "list_all call_in_range stop_all_calls"
  by (simp add: stop_all_calls_def brake_calls_def)

lemma calls_drive:
  "\<exists>new. calls (drive cfg b1 b2 x_unit y_unit p) = calls p @ new \<and> list_all call_in_range new"
proof (cases "b2 = 0")
  case True
  then show ?thesis
    by (simp add: drive_def Let_def calls_servo_from_x calls_brake brake_calls_def)
next
  case False
  obtain l r where t: "tank_mix x_unit y_unit (if b1 = 0 then turbo_speed cfg else base_speed cfg) = (l, r)"
    by (cases "tank_mix x_unit y_unit (if b1 = 0 then turbo_speed cfg else base_speed cfg)")
  obtain a b d where 1: "calls (set_motor IN1_L IN2_L EN_L l p)
            = calls p @ [Write IN1_L a, Write IN2_L b, Set_PWM_dutycycle EN_L d]"
      "a \<le> 1" "b \<le> 1" "0 \<le> d" "d \<le> 255"
    using calls_set_motor [of IN1_L IN2_L EN_L l p] by blast
  obtain a' b' d' where 2: "calls (set_motor IN1_R IN2_R EN_R r (set_motor IN1_L IN2_L EN_L l p))
            = calls (set_motor IN1_L IN2_L EN_L l p) @ [Write IN1_R a', Write IN2_R b', Set_PWM_dutycycle EN_R d']"
      "a' \<le> 1" "b' \<le> 1" "0 \<le> d'" "d' \<le> 255"
    using calls_set_motor [of IN1_R IN2_R EN_R r "set_motor IN1_L IN2_L EN_L l p"] by blast
  show ?thesis using False t 1 2
    by (simp add: drive_def Let_def calls_servo_from_x)
qed

section \<open>Facts about one pass of the loop\<close>

lemma iteration_timeout:
  "iteration cfg st (Timeout now)
    = Inr (if now - last_ok st > failsafe cfg then st\<lparr>pi := stop_all (pi st)\<rparr> else st)"
  by (simp add: iteration_def)

lemma iteration_invalid:
  assumes "parse_packet (recvfrom 256 payload) = Inr None"
  shows "iteration cfg st (Datagram payload t_ok t_chk) = Inr st"
  using assms by (simp add: iteration_def)

lemma iteration_raises:
  assumes "parse_packet (recvfrom 256 payload) = Inl e"
  shows "iteration cfg st (Datagram payload t_ok t_chk) = Inl e"
  using assms by (simp add: iteration_def)

lemma iteration_reading:
  assumes "parse_packet (recvfrom 256 payload) = Inr (Some (b1, b2, x_raw, y_raw))"
  shows "\<exists>ux uy. adc_to_unit x_raw (deadzone cfg) = Inr ux
           \<and> adc_to_unit y_raw (deadzone cfg) = Inr uy
           \<and> iteration cfg st (Datagram payload t_ok t_chk)
               = Inr \<lparr>pi = (if t_chk - t_ok > failsafe cfg
                            then stop_all (drive cfg b1 b2 (apply_expo ux (expo cfg))
                                             (apply_expo uy (expo cfg)) (pi st))
                            else drive cfg b1 b2 (apply_expo ux (expo cfg))
                                   (apply_expo uy (expo cfg)) (pi st)),
                      last_ok = t_ok\<rparr>"
proof -
  from received_reading_bound [OF assms]
  have "\<bar>x_raw\<bar> < float_limit" "\<bar>y_raw\<bar> < float_limit" by simp_all
  then obtain ux uy where u: "adc_to_unit x_raw (deadzone cfg) = Inr ux"
      "adc_to_unit y_raw (deadzone cfg) = Inr uy"
    using adc_to_unit_returns by meson
  show ?thesis using assms u by (simp add: iteration_def Let_def)
qed

lemma iteration_calls:
  assumes "iteration cfg st ev = Inr st'"
  shows "\<exists>new. calls (pi st') = calls (pi st) @ new \<and> list_all call_in_range new"
proof (cases ev)
  case (Timeout now)
  with assms show ?thesis
    by (auto simp: iteration_timeout calls_stop_all list_all_stop_all_calls split: if_splits)
next
  case (Datagram payload t_ok t_chk)
  show ?thesis
  proof (cases "parse_packet (recvfrom 256 payload)")
    case (Inl e)
    with assms Datagram show ?thesis by (simp add: iteration_raises)
  next
    case (Inr r)
    show ?thesis
    proof (cases r)
      case None
      with assms Datagram Inr show ?thesis by (simp add: iteration_invalid)
    next
      case (Some rd)
      obtain b1 b2 x_raw y_raw where rd: "rd = (b1, b2, x_raw, y_raw)" by (cases rd)
      from iteration_reading [OF Inr [unfolded Some rd], of cfg st t_ok t_chk]
      obtain ux uy where it: "iteration cfg st (Datagram payload t_ok t_chk)
               = Inr \<lparr>pi = (if t_chk - t_ok > failsafe cfg
                            then stop_all (drive cfg b1 b2 (apply_expo ux (expo cfg))
                                             (apply_expo uy (expo cfg)) (pi st))
                            else drive cfg b1 b2 (apply_expo ux (expo cfg))
                                   (apply_expo uy (expo cfg)) (pi st)),
                      last_ok = t_ok\<rparr>" by blast
      obtain new where n: "calls (drive cfg b1 b2 (apply_expo ux (expo cfg))
                                   (apply_expo uy (expo cfg)) (pi st)) = calls (pi st) @ new"
          "list_all call_in_range new"
        using calls_drive by blast
      show ?thesis using assms Datagram it n
        by (auto simp: calls_stop_all list_all_stop_all_calls)
    qed
  qed
qed

lemma calls_set_motor_exact:
  "calls (set_motor dir_a dir_b en val p) = calls p @ motor_calls dir_a dir_b en val"
  by (auto simp: set_motor_def motor_calls_def gpio_defs Let_def)

lemma calls_drive_exact:
  "calls (drive cfg b1 b2 x_unit y_unit p) = calls p @ reading_calls cfg b1 b2 x_unit y_unit"
  by (simp add: drive_def reading_calls_def servo_call_def Let_def calls_servo_from_x
      calls_brake calls_set_motor_exact split: prod.splits)

lemma drive_brakes:
  "motor_braked IN1_L IN2_L EN_L (drive cfg b1 0 x_unit y_unit p)
   \<and> motor_braked IN1_R IN2_R EN_R (drive cfg b1 0 x_unit y_unit p)"
  by (simp add: drive_def Let_def servo_from_x_keeps_motors motors_braked_after_brake)

lemma safe_state_braked:
  "safe_state p \<Longrightarrow> motor_braked IN1_L IN2_L EN_L p \<and> motor_braked IN1_R IN2_R EN_R p"
  by (simp add: safe_state_def)

lemma run_silent:
  assumes "list_all (silent cfg (last_ok st)) evs"
  shows "\<exists>st'. run cfg st evs = Inr st' \<and> last_ok st' = last_ok st
           \<and> calls (pi st') = calls (pi st) @ concat (map tick_calls evs)
           \<and> (safe_state (pi st) \<longrightarrow> safe_state (pi st'))"
  using assms
proof (induction evs arbitrary: st)
  case Nil
  then show ?case by simp
next
  case (Cons ev evs)
  show ?case
  proof (cases ev)
    case (Timeout now)
    with Cons.prems have trip: "now - last_ok st > failsafe cfg" by simp
    let ?s = "st\<lparr>pi := stop_all (pi st)\<rparr>"
    have it: "iteration cfg st ev = Inr ?s" using trip Timeout by (simp add: iteration_timeout)
    have "list_all (silent cfg (last_ok ?s)) evs" using Cons.prems by simp
    from Cons.IH [OF this] obtain st' where
      r: "run cfg ?s evs = Inr st'" "last_ok st' = last_ok ?s"
         "calls (pi st') = calls (pi ?s) @ concat (map tick_calls evs)"
         "safe_state (pi ?s) \<longrightarrow> safe_state (pi st')" by blast
    have "safe_state (pi st')" using r(4) by (simp add: safe_state_stop_all)
    with it r Timeout show ?thesis by (simp add: calls_stop_all)
  next
    case (Datagram payload t_ok t_chk)
    with Cons.prems have inv: "parse_packet (recvfrom 256 payload) = Inr None" by simp
    have it: "iteration cfg st ev = Inr st" using inv Datagram by (simp add: iteration_invalid)
    have "list_all (silent cfg (last_ok st)) evs" using Cons.prems by simp
    from Cons.IH [OF this] it Datagram show ?thesis by simp
  qed
qed

lemma run_dropped:
  assumes "list_all dropped evs"
  shows "run cfg st evs = Inr st"
  using assms
proof (induction evs)
  case Nil
  then show ?case by simp
next
  case (Cons ev evs)
  then show ?case by (cases ev) (simp_all add: iteration_invalid)
qed

lemma adc_to_unit_over_range:
  assumes "65535 < v" "v < float_limit" "0 \<le> d" "d \<le> 1"
  shows "adc_to_unit v d = Inr 1"
proof -
  have f: "to_float v = Inr (real_of_int v)" using assms by (simp add: to_float_def)
  have "65535 < real_of_int v" using assms(1) by linarith
  then have "1 < real_of_int v / 65535 * 2 - 1" by simp
  then show ?thesis using f assms(3,4) by (simp add: adc_to_unit_def Let_def)
qed

section \<open>Facts about payloads of ASCII digits\<close>

lemma utf8_ignore_ascii: "list_all (\<lambda>b. b < 0x80) bs \<Longrightarrow> utf8_ignore bs = bs"
  by (induction bs) (simp_all add: utf8_first_def)

lemma dropWhile_none: "(\<And>x. x \<in> set xs \<Longrightarrow> \<not> P x) \<Longrightarrow> dropWhile P xs = xs"
  by (cases xs) auto

lemma py_strip_no_space:
  assumes "\<And>c. c \<in> set s \<Longrightarrow> \<not> ch_isspace c"
  shows "py_strip s = s"
proof -
  have 1: "dropWhile ch_isspace s = s" using assms by (rule dropWhile_none)
  have 2: "dropWhile ch_isspace (rev s) = rev s" using assms by (intro dropWhile_none) simp
  show ?thesis by (simp add: py_strip_def 1 2)
qed

lemma py_split_single: "sep \<notin> set f \<Longrightarrow> py_split sep f = [f]"
  by (induction f) auto

lemma py_split_field: "sep \<notin> set f \<Longrightarrow> py_split sep (f @ sep # rest) = f # py_split sep rest"
  by (induction f) auto

lemma digit_not_space: "48 \<le> c \<Longrightarrow> c \<le> 57 \<Longrightarrow> \<not> ch_isspace c"
  by (auto simp: ch_isspace_def space_ranges_def)

lemma comma_not_space: "\<not> ch_isspace comma"
  by (simp add: ch_isspace_def space_ranges_def comma_def)

lemma digit_decimal: "48 \<le> c \<Longrightarrow> c \<le> 57 \<Longrightarrow> ch_isdecimal c"
  by (simp add: ch_isdecimal_def decimal_ranges_def)

lemma digit_value:
  assumes "48 \<le> c" "c \<le> 57"
  shows "int (ch_decimal c) = int c - 48"
proof -
  have "ch_decimal c = (c - 48) mod 10"
    using assms by (simp add: ch_decimal_def decimal_ranges_def)
  moreover have "(c - 48) mod 10 = c - 48" using assms by simp
  ultimately show ?thesis using assms by simp
qed

lemma ascii_digits_text:
  assumes "ascii_digits f"
  shows "map unat f \<noteq> []"
    and "\<And>c. c \<in> set (map unat f) \<Longrightarrow> 48 \<le> c \<and> c \<le> 57"
  using assms by (auto simp: ascii_digits_def list_all_iff)

lemma ascii_digits_isdigit:
  assumes "ascii_digits f"
  shows "py_isdigit (map unat f)"
  using ascii_digits_text [OF assms]
  by (auto simp: py_isdigit_def ch_isdigit_def list_all_iff digit_decimal)

lemma ascii_digits_value:
  assumes "ascii_digits f"
  shows "digits_value (map unat f) = dec_value f"
proof -
  have "foldl (\<lambda>a c. 10 * a + int (ch_decimal c)) 0 (map unat f)
      = foldl (\<lambda>a b. 10 * a + int (ch_decimal (unat b))) 0 f"
    by (simp add: foldl_map)
  also have "\<dots> = foldl (\<lambda>a b. 10 * a + (int (unat b) - 48)) 0 f"
  proof (rule foldl_cong [OF refl refl])
    fix a b assume "b \<in> set f"
    then have "48 \<le> unat b \<and> unat b \<le> 57"
      using ascii_digits_text(2) [OF assms, of "unat b"] by simp
    then show "10 * a + int (ch_decimal (unat b)) = 10 * a + (int (unat b) - 48)"
      by (simp add: digit_value)
  qed
  finally show ?thesis by (simp add: digits_value_def dec_value_def)
qed

lemma ascii_digits_int:
  assumes "ascii_digits f" "length f \<le> int_max_str_digits"
  shows "py_int (map unat f) = Inr (dec_value f)"
proof -
  have "list_all ch_isdecimal (map unat f)"
    using ascii_digits_text(2) [OF assms(1)] by (auto simp: list_all_iff digit_decimal)
  then show ?thesis
    using assms(2) ascii_digits_value [OF assms(1)] by (simp add: py_int_def)
qed

lemma ascii_digits_no_comma:
  assumes "ascii_digits f"
  shows "comma \<notin> set (map unat f)"
  using ascii_digits_text(2) [OF assms, of comma] by (auto simp: comma_def)

lemma decode_csv4:
  assumes "ascii_digits f1" "ascii_digits f2" "ascii_digits fx" "ascii_digits fy"
  shows "py_strip (decode_ignore (csv4 f1 f2 fx fy))
    = map unat f1 @ comma # map unat f2 @ comma # map unat fx @ comma # map unat fy"
proof -
  let ?t = "map unat f1 @ comma # map unat f2 @ comma # map unat fx @ comma # map unat fy"
  have m: "map unat (csv4 f1 f2 fx fy) = ?t" by (simp add: csv4_def comma_def)
  have r: "48 \<le> c \<and> c \<le> 57 \<or> c = comma" if "c \<in> set ?t" for c
    using that ascii_digits_text(2) [OF assms(1)] ascii_digits_text(2) [OF assms(2)]
      ascii_digits_text(2) [OF assms(3)] ascii_digits_text(2) [OF assms(4)] by auto
  have "c < 0x80" if "c \<in> set ?t" for c
    using r [OF that] by (auto simp: comma_def)
  then have "list_all (\<lambda>b. b < 0x80) ?t"
    unfolding list_all_iff by blast
  then have d: "decode_ignore (csv4 f1 f2 fx fy) = ?t"
    by (simp add: decode_ignore_def m utf8_ignore_ascii)
  have "\<not> ch_isspace c" if "c \<in> set ?t" for c
    using r [OF that] digit_not_space comma_not_space by auto
  then have "py_strip ?t = ?t" by (rule py_strip_no_space)
  with d show ?thesis by simp
qed

lemma parse_packet_accepts_digits:
  assumes d: "ascii_digits f1" "ascii_digits f2" "ascii_digits fx" "ascii_digits fy"
    and l: "length f1 \<le> int_max_str_digits" "length f2 \<le> int_max_str_digits"
      "length fx \<le> int_max_str_digits" "length fy \<le> int_max_str_digits"
  shows "parse_packet (csv4 f1 f2 fx fy)
    = Inr (Some (dec_value f1, dec_value f2, dec_value fx, dec_value fy))"
proof -
  note n = ascii_digits_no_comma [OF d(1)] ascii_digits_no_comma [OF d(2)]
    ascii_digits_no_comma [OF d(3)] ascii_digits_no_comma [OF d(4)]
  let ?t = "map unat f1 @ comma # map unat f2 @ comma # map unat fx @ comma # map unat fy"
  have c: "py_count ?t comma = 3" using n by (simp add: py_count_def)
  have s: "py_split comma ?t = [map unat f1, map unat f2, map unat fx, map unat fy]"
    using n by (simp add: py_split_field py_split_single)
  show ?thesis
    unfolding parse_packet_def decode_csv4 [OF d]
    by (simp add: c s ascii_digits_isdigit d ascii_digits_int l)
qed

lemma dec_value_nines_aux:
  "foldl (\<lambda>a b. 10 * a + (int (unat b) - 48)) a (replicate n (0x39 :: byte)) = (a + 1) * 10 ^ n - 1"
proof (induction n arbitrary: a)
  case 0
  show ?case by simp
next
  case (Suc n)
  have nine: "10 * a + (int (unat (0x39 :: byte)) - 48) = 10 * a + 9" by simp
  have "foldl (\<lambda>a b. 10 * a + (int (unat b) - 48)) a (replicate (Suc n) (0x39 :: byte))
      = foldl (\<lambda>a b. 10 * a + (int (unat b) - 48)) (10 * a + 9) (replicate n (0x39 :: byte))"
    by (simp only: replicate_Suc foldl_Cons nine)
  also have "\<dots> = (10 * a + 9 + 1) * 10 ^ n - 1" by (rule Suc.IH)
  also have "\<dots> = (a + 1) * 10 ^ Suc n - 1" by (simp add: algebra_simps)
  finally show ?case .
qed

lemma dec_value_nines: "dec_value (replicate n 0x39) = 10 ^ n - 1"
  using dec_value_nines_aux [of 0 n] by (simp add: dec_value_def)

lemma ascii_digits_nines: "0 < n \<Longrightarrow> ascii_digits (replicate n 0x39)"
  by (simp add: ascii_digits_def list_all_iff)

lemma adc_to_unit_overflow:
  assumes "float_limit \<le> v"
  shows "adc_to_unit v d = Inl OverflowError"
proof -
  have "float_limit \<le> \<bar>v\<bar>" using assms by linarith
  then show ?thesis by (simp add: adc_to_unit_def to_float_def)
qed

section \<open>The claims\<close>

lemmas decoder_eval = parse_packet_def recvfrom_def decode_ignore_def utf8_first_def is_cont_def
  py_strip_def ch_isspace_def space_ranges_def comma_def py_count_def py_isdigit_def
  ch_isdigit_def ch_isdecimal_def decimal_ranges_def other_digit_ranges_def py_int_def
  int_max_str_digits_def digits_value_def ch_decimal_def

text \<open>
  Claim C1 says that whenever no valid datagram arrives for longer than the failsafe
  timeout, both motors are braked and the servo is centred, also while malformed
  datagrams keep arriving. It does not hold in that last case: the failsafe check sits in
  the handler of the receive timeout (and behind the commands of a reading), and a pass
  that drops a datagram goes on to the next \<^verbatim>\<open>recvfrom\<close> without it. After the reading
  \<^verbatim>\<open>0,1,32768,65535\<close> at time 0 (turbo, full forward), twelve datagrams \<^verbatim>\<open>abc\<close> arrive
  50 ms apart, so that no receive times out: at 0.6 s, with a timeout of 0.5 s, both
  motors still run forward at full duty.
\<close>

theorem failsafe_starved_by_dropped_datagrams:
  "\<exists>st st'.
      iteration defaults (startup defaults fresh_pi 0)
        (Datagram [0x30, 0x2C, 0x31, 0x2C, 0x33, 0x32, 0x37, 0x36, 0x38, 0x2C,
                   0x36, 0x35, 0x35, 0x33, 0x35] 0 0) = Inr st
    \<and> run defaults st
        (map (\<lambda>i. Datagram [0x61, 0x62, 0x63] (real i / 20) (real i / 20)) [1..<13]) = Inr st'
    \<and> last_ok st' = 0 \<and> real 12 / 20 - last_ok st' > failsafe defaults
    \<and> level (pi st') IN1_L = 1 \<and> level (pi st') IN2_L = 0 \<and> dutycycle (pi st') EN_L = 255
    \<and> level (pi st') IN1_R = 1 \<and> level (pi st') IN2_R = 0 \<and> dutycycle (pi st') EN_R = 255
    \<and> \<not> safe_state (pi st')"
proof -
  have rd: "parse_packet (recvfrom 256 [0x30, 0x2C, 0x31, 0x2C, 0x33, 0x32, 0x37, 0x36, 0x38, 0x2C,
                   0x36, 0x35, 0x35, 0x33, 0x35]) = Inr (Some (0, 1, 32768, 65535))"
    by (simp add: decoder_eval)
  have x: "adc_to_unit 32768 (deadzone defaults) = Inr 0"
    by (simp add: adc_to_unit_def to_float_def float_limit_def defaults_def)
  have y: "adc_to_unit 65535 (deadzone defaults) = Inr 1"
    by (simp add: adc_to_unit_def to_float_def float_limit_def defaults_def)
  have ex: "apply_expo 0 (expo defaults) = 0" and ey: "apply_expo 1 (expo defaults) = 1"
    by (simp_all add: apply_expo_def defaults_def)
  let ?p = "drive defaults 0 1 0 1 (pi (startup defaults fresh_pi 0))"
  let ?st = "\<lparr>pi = ?p, last_ok = 0\<rparr>"
  from iteration_reading [OF rd, of defaults "startup defaults fresh_pi 0" 0 0] x y ex ey
  have 1: "iteration defaults (startup defaults fresh_pi 0)
        (Datagram [0x30, 0x2C, 0x31, 0x2C, 0x33, 0x32, 0x37, 0x36, 0x38, 0x2C,
                   0x36, 0x35, 0x35, 0x33, 0x35] 0 0) = Inr ?st"
    by (auto simp: defaults_def)
  have a: "parse_packet (recvfrom 256 [0x61, 0x62, 0x63]) = Inr None"
    by (simp add: decoder_eval)
  have "list_all dropped
      (map (\<lambda>i. Datagram [0x61, 0x62, 0x63] (real i / 20) (real i / 20)) [1..<13])"
    using a by (simp add: list_all_iff)
  then have 2: "run defaults ?st
        (map (\<lambda>i. Datagram [0x61, 0x62, 0x63] (real i / 20) (real i / 20)) [1..<13]) = Inr ?st"
    by (rule run_dropped)
  have t: "tank_mix 0 1 1 = (1, 1)" by (simp add: tank_mix_def)
  have m: "level ?p IN1_L = 1 \<and> level ?p IN2_L = 0 \<and> dutycycle ?p EN_L = 255
      \<and> level ?p IN1_R = 1 \<and> level ?p IN2_R = 0 \<and> dutycycle ?p EN_R = 255"
    by (simp add: drive_def t defaults_def set_motor_def servo_from_x_def py_trunc_def
        gpio_defs pins Let_def)
  then have n: "\<not> safe_state ?p" by (simp add: safe_state_def motor_braked_def)
  have w: "real 12 / 20 - last_ok ?st > failsafe defaults" by (simp add: defaults_def)
  show ?thesis
    by (intro exI [of _ ?st]) (use 1 2 m n w in simp)
qed

text \<open>
  Claim C2 says that \<^verbatim>\<open>parse_packet\<close> never raises, because the integer conversion
  succeeds on every field that passed the digit check. It does not hold: the payload
  \<^verbatim>\<open>b"1,1,\xc2\xb2,5"\<close> decodes to the text \<^verbatim>\<open>1,1,\<close>, SUPERSCRIPT TWO, \<^verbatim>\<open>,5\<close>; the
  third field passes \<^verbatim>\<open>isdigit()\<close>, \<^verbatim>\<open>int()\<close> raises \<^verbatim>\<open>ValueError\<close> on it, the loop
  does not catch it, and the program ends in its \<^verbatim>\<open>finally\<close> block.
\<close>

theorem parse_packet_raises_on_superscript_digit:
  "parse_packet [0x31, 0x2C, 0x31, 0x2C, 0xC2, 0xB2, 0x2C, 0x35] = Inl ValueError
   \<and> run cfg st [Datagram [0x31, 0x2C, 0x31, 0x2C, 0xC2, 0xB2, 0x2C, 0x35] t_ok t_chk]
       = Inl (ValueError, shutdown (pi st))"
proof -
  have p: "parse_packet [0x31, 0x2C, 0x31, 0x2C, 0xC2, 0xB2, 0x2C, 0x35] = Inl ValueError"
    by (simp add: decoder_eval)
  have r: "recvfrom 256 [0x31, 0x2C, 0x31, 0x2C, 0xC2, 0xB2, 0x2C, 0x35 :: byte]
      = [0x31, 0x2C, 0x31, 0x2C, 0xC2, 0xB2, 0x2C, 0x35]"
    by (simp add: recvfrom_def)
  show ?thesis using p by (simp add: iteration_def r)
qed

text \<open>
  Claim C3 says that \<^verbatim>\<open>parse_packet\<close> returns invalid exactly when the trimmed text has
  fewer than three commas or one of the first four fields is not made of digit characters,
  and the four integers otherwise. It does not hold: the payload \<^verbatim>\<open>b"0,1,7,\xc2\xb9\n"\<close>
  has three commas and four fields that pass the digit check (the last one is SUPERSCRIPT
  ONE), and the result is neither invalid nor a reading: the call raises
  \<^verbatim>\<open>ValueError\<close>.
\<close>

theorem parse_packet_digit_fields_not_returned:
  "3 \<le> py_count (py_strip (decode_ignore [0x30, 0x2C, 0x31, 0x2C, 0x37, 0x2C, 0xC2, 0xB9, 0x0A])) comma
   \<and> take 4 (py_split comma (py_strip (decode_ignore [0x30, 0x2C, 0x31, 0x2C, 0x37, 0x2C, 0xC2, 0xB9, 0x0A])))
       = [[0x30], [0x31], [0x37], [0xB9]]
   \<and> py_isdigit [0x30] \<and> py_isdigit [0x31] \<and> py_isdigit [0x37] \<and> py_isdigit [0xB9]
   \<and> parse_packet [0x30, 0x2C, 0x31, 0x2C, 0x37, 0x2C, 0xC2, 0xB9, 0x0A] = Inl ValueError"
  by (simp add: decoder_eval)

text \<open>
  Claim C4: a pass whose datagram parses as invalid leaves \<^verbatim>\<open>last_ok\<close> (and everything
  else) unchanged; a pass whose datagram parses to a reading completes and sets
  \<^verbatim>\<open>last_ok\<close> to the clock reading taken there; no other pass changes it: a pass whose
  datagram makes the decoder raise ends the loop, and a receive timeout keeps
  \<^verbatim>\<open>last_ok\<close>.
\<close>

theorem last_ok_updated_exactly_on_reading:
  "(parse_packet (recvfrom 256 payload) = Inr None
      \<longrightarrow> iteration cfg st (Datagram payload t_ok t_chk) = Inr st)
   \<and> (parse_packet (recvfrom 256 payload) = Inr (Some r)
      \<longrightarrow> (\<exists>st'. iteration cfg st (Datagram payload t_ok t_chk) = Inr st' \<and> last_ok st' = t_ok))
   \<and> (parse_packet (recvfrom 256 payload) = Inl e
      \<longrightarrow> iteration cfg st (Datagram payload t_ok t_chk) = Inl e)
   \<and> (\<exists>st'. iteration cfg st (Timeout now) = Inr st' \<and> last_ok st' = last_ok st)"
proof -
  have "\<exists>st'. iteration cfg st (Datagram payload t_ok t_chk) = Inr st' \<and> last_ok st' = t_ok"
    if p: "parse_packet (recvfrom 256 payload) = Inr (Some r)"
  proof -
    obtain b1 b2 x_raw y_raw where r: "r = (b1, b2, x_raw, y_raw)" by (cases r)
    from iteration_reading [OF p [unfolded r], of cfg st t_ok t_chk] show ?thesis by auto
  qed
  then show ?thesis
    by (simp add: iteration_invalid iteration_raises iteration_timeout)
qed

theorem last_ok_updated_exactly_on_reading_witness:
  "parse_packet (recvfrom 256 [0x61, 0x62, 0x63]) = Inr None
   \<and> iteration defaults (startup defaults fresh_pi 0) (Datagram [0x61, 0x62, 0x63] 1 1)
       = Inr (startup defaults fresh_pi 0)
   \<and> parse_packet (recvfrom 256 [0x31, 0x2C, 0x30, 0x2C, 0x37, 0x2C, 0x39])
       = Inr (Some (1, 0, 7, 9))
   \<and> (\<exists>st'. iteration defaults (startup defaults fresh_pi 0)
               (Datagram [0x31, 0x2C, 0x30, 0x2C, 0x37, 0x2C, 0x39] 2 3) = Inr st'
             \<and> last_ok st' = 2)
   \<and> (\<exists>st'. iteration defaults (startup defaults fresh_pi 0) (Timeout 4) = Inr st'
             \<and> last_ok st' = last_ok (startup defaults fresh_pi 0))"
proof -
  have a: "parse_packet (recvfrom 256 [0x61, 0x62, 0x63]) = Inr None"
    by (simp add: decoder_eval)
  have b: "parse_packet (recvfrom 256 [0x31, 0x2C, 0x30, 0x2C, 0x37, 0x2C, 0x39])
       = Inr (Some (1, 0, 7, 9))"
    by (simp add: decoder_eval)
  show ?thesis
    using a b
      last_ok_updated_exactly_on_reading [of "[0x61, 0x62, 0x63]" defaults
        "startup defaults fresh_pi 0" 1 1 "(1, 0, 7, 9)" ValueError 4]
      last_ok_updated_exactly_on_reading [of "[0x31, 0x2C, 0x30, 0x2C, 0x37, 0x2C, 0x39]" defaults
        "startup defaults fresh_pi 0" 2 3 "(1, 0, 7, 9)" ValueError 4]
    by blast
qed

text \<open>
  Claim C5: with the expo factor and the deadzone in \<open>[0, 1]\<close>, in every pass: an axis
  value is in \<open>[-1, 1]\<close> after \<^verbatim>\<open>adc_to_unit\<close> and again after \<^verbatim>\<open>apply_expo\<close>; the
  magnitude \<^verbatim>\<open>set_motor\<close> sends is in \<open>[0, 1]\<close> and its duty cycle in \<open>[0, 255]\<close>; a
  pass with a reading completes; and every call a pass makes is in range: a duty cycle
  in \<open>[0, 255]\<close>, a servo pulse in \<open>[500, 2500]\<close>.
\<close>

theorem shaped_values_and_commands_in_range:
  assumes "0 \<le> expo cfg" "expo cfg \<le> 1" "0 \<le> deadzone cfg" "deadzone cfg \<le> 1"
  shows "(adc_to_unit v (deadzone cfg) = Inr u
            \<longrightarrow> - 1 \<le> u \<and> u \<le> 1
                \<and> - 1 \<le> apply_expo u (expo cfg) \<and> apply_expo u (expo cfg) \<le> 1)
       \<and> (\<exists>m. 0 \<le> m \<and> m \<le> 1
             \<and> dutycycle (set_motor dir_a dir_b en val p) en = py_trunc (m * 255)
             \<and> 0 \<le> py_trunc (m * 255) \<and> py_trunc (m * 255) \<le> 255)
       \<and> (parse_packet (recvfrom 256 payload) = Inr (Some r)
            \<longrightarrow> (\<exists>st'. iteration cfg st (Datagram payload t_ok t_chk) = Inr st'))
       \<and> (iteration cfg st ev = Inr st'
            \<longrightarrow> (\<exists>new. calls (pi st') = calls (pi st) @ new \<and> list_all call_in_range new))"
proof -
  have a: "- 1 \<le> u \<and> u \<le> 1 \<and> - 1 \<le> apply_expo u (expo cfg) \<and> apply_expo u (expo cfg) \<le> 1"
    if "adc_to_unit v (deadzone cfg) = Inr u"
    using adc_to_unit_range [OF that] apply_expo_range [of u "expo cfg"] assms(1,2) by simp
  let ?m = "\<bar>max (- 1) (min 1 val)\<bar>"
  have m: "0 \<le> ?m" "?m \<le> 1" by auto
  have "dutycycle (set_motor dir_a dir_b en val p) en = py_trunc (?m * 255)"
    by (simp add: set_motor_def gpio_defs Let_def)
  with m py_trunc_duty [OF m] have b: "\<exists>m. 0 \<le> m \<and> m \<le> 1
             \<and> dutycycle (set_motor dir_a dir_b en val p) en = py_trunc (m * 255)
             \<and> 0 \<le> py_trunc (m * 255) \<and> py_trunc (m * 255) \<le> 255" by blast
  have c: "\<exists>st'. iteration cfg st (Datagram payload t_ok t_chk) = Inr st'"
    if q: "parse_packet (recvfrom 256 payload) = Inr (Some r)"
  proof -
    obtain b1 b2 x_raw y_raw where r: "r = (b1, b2, x_raw, y_raw)" by (cases r)
    from iteration_reading [OF q [unfolded r], of cfg st t_ok t_chk] show ?thesis by blast
  qed
  show ?thesis using a b c iteration_calls [of cfg st ev st'] by blast
qed

theorem shaped_values_and_commands_in_range_witness:
  "0 \<le> expo defaults \<and> expo defaults \<le> 1 \<and> 0 \<le> deadzone defaults \<and> deadzone defaults \<le> 1
   \<and> adc_to_unit 0 (deadzone defaults) = Inr (- 1)
   \<and> - 1 \<le> apply_expo (- 1) (expo defaults) \<and> apply_expo (- 1) (expo defaults) \<le> 1
   \<and> parse_packet (recvfrom 256 [0x30, 0x2C, 0x31, 0x2C, 0x30, 0x2C, 0x30]) = Inr (Some (0, 1, 0, 0))
   \<and> (\<exists>st'. iteration defaults (startup defaults fresh_pi 0)
               (Datagram [0x30, 0x2C, 0x31, 0x2C, 0x30, 0x2C, 0x30] 1 1) = Inr st'
          \<and> (\<exists>new. calls (pi st') = calls (pi (startup defaults fresh_pi 0)) @ new
                 \<and> list_all call_in_range new))"
proof -
  have h: "0 \<le> expo defaults" "expo defaults \<le> 1" "0 \<le> deadzone defaults" "deadzone defaults \<le> 1"
    by (simp_all add: defaults_def)
  have v: "adc_to_unit 0 (deadzone defaults) = Inr (- 1)"
    by (simp add: adc_to_unit_def to_float_def float_limit_def defaults_def)
  have p: "parse_packet (recvfrom 256 [0x30, 0x2C, 0x31, 0x2C, 0x30, 0x2C, 0x30]) = Inr (Some (0, 1, 0, 0))"
    by (simp add: decoder_eval)
  note t = shaped_values_and_commands_in_range [OF h]
  from t [of 0 "- 1" IN1_L IN2_L EN_L 0 fresh_pi "[0x30, 0x2C, 0x31, 0x2C, 0x30, 0x2C, 0x30]"
      "(0, 1, 0, 0)" "startup defaults fresh_pi 0" 1 1] p
  obtain st' where i: "iteration defaults (startup defaults fresh_pi 0)
               (Datagram [0x30, 0x2C, 0x31, 0x2C, 0x30, 0x2C, 0x30] 1 1) = Inr st'" by blast
  from t [of 0 "- 1" IN1_L IN2_L EN_L 0 fresh_pi "[0x30, 0x2C, 0x31, 0x2C, 0x30, 0x2C, 0x30]"
      "(0, 1, 0, 0)" "startup defaults fresh_pi 0" 1 1
      "Datagram [0x30, 0x2C, 0x31, 0x2C, 0x30, 0x2C, 0x30] 1 1" st'] i v
  have "- 1 \<le> apply_expo (- 1) (expo defaults) \<and> apply_expo (- 1) (expo defaults) \<le> 1"
    and "\<exists>new. calls (pi st') = calls (pi (startup defaults fresh_pi 0)) @ new
                 \<and> list_all call_in_range new" by blast+
  with h v p i show ?thesis by blast
qed

text \<open>
  Claim C6: for a reading with button 2 equal to 0 the pass brakes both motors (both
  direction lines high, zero duty) whatever the axis values are, then sets the servo pulse
  computed from the shaped horizontal axis, in this order; the only calls that may follow
  in the pass are those of the failsafe check at its end, and the motors are braked when
  the pass ends.
\<close>

theorem button2_brakes_and_servo_still_set:
  assumes "parse_packet (recvfrom 256 payload) = Inr (Some (b1, 0, x_raw, y_raw))"
  shows "\<exists>ux p' rest.
           adc_to_unit x_raw (deadzone cfg) = Inr ux
         \<and> iteration cfg st (Datagram payload t_ok t_chk) = Inr \<lparr>pi = p', last_ok = t_ok\<rparr>
         \<and> calls p' = calls (pi st) @ brake_calls IN1_L IN2_L EN_L @ brake_calls IN1_R IN2_R EN_R
                       @ [servo_call (apply_expo ux (expo cfg))] @ rest
         \<and> (rest = [] \<or> rest = stop_all_calls)
         \<and> motor_braked IN1_L IN2_L EN_L p' \<and> motor_braked IN1_R IN2_R EN_R p'"
proof -
  from iteration_reading [OF assms, of cfg st t_ok t_chk]
  obtain ux uy where u: "adc_to_unit x_raw (deadzone cfg) = Inr ux"
    and it: "iteration cfg st (Datagram payload t_ok t_chk)
               = Inr \<lparr>pi = (if t_chk - t_ok > failsafe cfg
                            then stop_all (drive cfg b1 0 (apply_expo ux (expo cfg))
                                             (apply_expo uy (expo cfg)) (pi st))
                            else drive cfg b1 0 (apply_expo ux (expo cfg))
                                   (apply_expo uy (expo cfg)) (pi st)),
                      last_ok = t_ok\<rparr>" by blast
  let ?d = "drive cfg b1 0 (apply_expo ux (expo cfg)) (apply_expo uy (expo cfg)) (pi st)"
  have c: "calls ?d = calls (pi st) @ brake_calls IN1_L IN2_L EN_L @ brake_calls IN1_R IN2_R EN_R
                       @ [servo_call (apply_expo ux (expo cfg))]"
    by (simp add: calls_drive_exact reading_calls_def)
  show ?thesis
  proof (cases "t_chk - t_ok > failsafe cfg")
    case True
    have b: "motor_braked IN1_L IN2_L EN_L (stop_all ?d) \<and> motor_braked IN1_R IN2_R EN_R (stop_all ?d)"
      by (rule safe_state_braked [OF safe_state_stop_all])
    have i: "iteration cfg st (Datagram payload t_ok t_chk) = Inr \<lparr>pi = stop_all ?d, last_ok = t_ok\<rparr>"
      using it True by simp
    show ?thesis
      by (intro exI [of _ ux] exI [of _ "stop_all ?d"] exI [of _ stop_all_calls])
        (simp add: u i b calls_stop_all c)
  next
    case False
    have i: "iteration cfg st (Datagram payload t_ok t_chk) = Inr \<lparr>pi = ?d, last_ok = t_ok\<rparr>"
      using it False by simp
    show ?thesis
      by (intro exI [of _ ux] exI [of _ ?d] exI [of _ "[]"])
        (simp add: u i c drive_brakes)
  qed
qed

theorem button2_brakes_and_servo_still_set_witness:
  "parse_packet (recvfrom 256 [0x31, 0x2C, 0x30, 0x2C, 0x36, 0x35, 0x35, 0x33, 0x35, 0x2C,
                               0x36, 0x35, 0x35, 0x33, 0x35])
     = Inr (Some (1, 0, 65535, 65535))
   \<and> (\<exists>ux p' rest.
         adc_to_unit 65535 (deadzone defaults) = Inr ux
       \<and> iteration defaults (startup defaults fresh_pi 0)
           (Datagram [0x31, 0x2C, 0x30, 0x2C, 0x36, 0x35, 0x35, 0x33, 0x35, 0x2C,
                      0x36, 0x35, 0x35, 0x33, 0x35] 1 1)
           = Inr \<lparr>pi = p', last_ok = 1\<rparr>
       \<and> calls p' = calls (pi (startup defaults fresh_pi 0))
                     @ brake_calls IN1_L IN2_L EN_L @ brake_calls IN1_R IN2_R EN_R
                     @ [servo_call (apply_expo ux (expo defaults))] @ rest
       \<and> (rest = [] \<or> rest = stop_all_calls)
       \<and> motor_braked IN1_L IN2_L EN_L p' \<and> motor_braked IN1_R IN2_R EN_R p')"
proof -
  have p: "parse_packet (recvfrom 256 [0x31, 0x2C, 0x30, 0x2C, 0x36, 0x35, 0x35, 0x33, 0x35, 0x2C,
                               0x36, 0x35, 0x35, 0x33, 0x35])
     = Inr (Some (1, 0, 65535, 65535))"
    by (simp add: decoder_eval)
  from button2_brakes_and_servo_still_set [OF p, of defaults "startup defaults fresh_pi 0" 1 1]
  show ?thesis using p by simp
qed

text \<open>
  Claim C7: for shaped axis values in \<open>[-1, 1]\<close> and a speed ceiling that is not negative,
  the left and the right value of the tank-drive mixing are at most the ceiling in
  magnitude.
\<close>

theorem tank_mix_within_ceiling:
  assumes "- 1 \<le> x" "x \<le> 1" "- 1 \<le> y" "y \<le> 1" "0 \<le> c"
  shows "\<bar>fst (tank_mix x y c)\<bar> \<le> c \<and> \<bar>snd (tank_mix x y c)\<bar> \<le> c"
proof -
  have clamp: "\<bar>max (- 1) (min 1 z)\<bar> \<le> 1" for z :: real by auto
  have "\<bar>max (- 1) (min 1 z) * c\<bar> \<le> c" for z :: real
  proof -
    have "\<bar>max (- 1) (min 1 z) * c\<bar> = \<bar>max (- 1) (min 1 z)\<bar> * c"
      using \<open>0 \<le> c\<close> by (simp add: abs_mult)
    also have "\<dots> \<le> 1 * c" using clamp [of z] \<open>0 \<le> c\<close> by (rule mult_right_mono)
    finally show ?thesis by simp
  qed
  then show ?thesis by (simp add: tank_mix_def)
qed

theorem tank_mix_within_ceiling_witness:
  "- 1 \<le> (1 :: real) \<and> (1 :: real) \<le> 1 \<and> - 1 \<le> (4 / 5 :: real) \<and> (4 / 5 :: real) \<le> 1
   \<and> 0 \<le> (3 / 5 :: real)
   \<and> tank_mix 1 (4 / 5) (3 / 5) = (3 / 5, - (3 / 25))
   \<and> \<bar>fst (tank_mix 1 (4 / 5) (3 / 5))\<bar> \<le> 3 / 5 \<and> \<bar>snd (tank_mix 1 (4 / 5) (3 / 5))\<bar> \<le> 3 / 5"
  using tank_mix_within_ceiling [of 1 "4 / 5" "3 / 5"] by (simp add: tank_mix_def)

text \<open>
  Claim C8: for \<open>u\<close> in \<open>[-1, 1]\<close> and \<open>k\<close> in \<open>[0, 1]\<close>, \<^verbatim>\<open>apply_expo\<close> is odd in \<open>u\<close>, is
  the identity at \<open>k = 0\<close> and is zero at \<open>u = 0\<close>.
\<close>

theorem apply_expo_odd_identity_zero:
  assumes "- 1 \<le> u" "u \<le> 1" "0 \<le> k" "k \<le> 1"
  shows "apply_expo (- u) k = - apply_expo u k \<and> apply_expo u 0 = u \<and> apply_expo 0 k = 0"
  by (simp add: apply_expo_def algebra_simps)

theorem apply_expo_odd_identity_zero_witness:
  "- 1 \<le> (1 / 2 :: real) \<and> (1 / 2 :: real) \<le> 1 \<and> 0 \<le> (3 / 5 :: real) \<and> (3 / 5 :: real) \<le> 1
   \<and> apply_expo (- (1 / 2)) (3 / 5) = - apply_expo (1 / 2) (3 / 5)
   \<and> apply_expo (1 / 2) 0 = 1 / 2 \<and> apply_expo 0 (3 / 5) = 0"
  using apply_expo_odd_identity_zero [of "1 / 2" "3 / 5"] by simp

text \<open>
  Claim C9 says that the decoder accepts axis values above 65535 and that \<^verbatim>\<open>adc_to_unit\<close>
  returns a value in \<open>[-1, 1]\<close> for every such value. As stated it does not hold: the
  decoder accepts a field of 310 nines, and \<^verbatim>\<open>adc_to_unit\<close> raises \<^verbatim>\<open>OverflowError\<close> on
  its value, as on every integer from \<open>2^1024 - 2^970\<close> on. Amended: the decoder accepts
  every field of one to 4300 ASCII digits with the number it denotes, with no range check;
  for a deadzone in \<open>[0, 1]\<close>, \<^verbatim>\<open>adc_to_unit\<close> returns a value in \<open>[-1, 1]\<close> for every axis
  value from 0 to below \<open>2^1024 - 2^970\<close>, which is exactly 1 above 65535, and raises
  \<^verbatim>\<open>OverflowError\<close> from \<open>2^1024 - 2^970\<close> on; every axis value of a reading the loop
  receives is below that limit, since a datagram is cut to 256 bytes.
\<close>

theorem over_range_axis_saturates_below_float_limit:
  assumes digits: "ascii_digits f1" "ascii_digits f2" "ascii_digits fx" "ascii_digits fy"
    and lengths: "length f1 \<le> int_max_str_digits" "length f2 \<le> int_max_str_digits"
      "length fx \<le> int_max_str_digits" "length fy \<le> int_max_str_digits"
    and deadzone: "0 \<le> d" "d \<le> 1"
  shows "parse_packet (csv4 f1 f2 fx fy)
           = Inr (Some (dec_value f1, dec_value f2, dec_value fx, dec_value fy))
       \<and> (0 \<le> v \<and> v < float_limit
            \<longrightarrow> (\<exists>u. adc_to_unit v d = Inr u \<and> - 1 \<le> u \<and> u \<le> 1))
       \<and> (65535 < v \<and> v < float_limit \<longrightarrow> adc_to_unit v d = Inr 1)
       \<and> (float_limit \<le> v \<longrightarrow> adc_to_unit v d = Inl OverflowError)
       \<and> (parse_packet (recvfrom 256 payload) = Inr (Some (b1, b2, x_raw, y_raw))
            \<longrightarrow> 0 \<le> x_raw \<and> x_raw < float_limit \<and> 0 \<le> y_raw \<and> y_raw < float_limit
                \<and> (\<exists>ux uy. adc_to_unit x_raw d = Inr ux \<and> adc_to_unit y_raw d = Inr uy
                      \<and> - 1 \<le> ux \<and> ux \<le> 1 \<and> - 1 \<le> uy \<and> uy \<le> 1
                      \<and> (65535 < x_raw \<longrightarrow> ux = 1) \<and> (65535 < y_raw \<longrightarrow> uy = 1)))"
proof -
  have range: "\<exists>u. adc_to_unit w d = Inr u \<and> - 1 \<le> u \<and> u \<le> 1 \<and> (65535 < w \<longrightarrow> u = 1)"
    if w: "0 \<le> w" "w < float_limit" for w
  proof -
    from w have "\<bar>w\<bar> < float_limit" by simp
    then obtain u where u: "adc_to_unit w d = Inr u" using adc_to_unit_returns by blast
    have "u = 1" if "65535 < w"
      using adc_to_unit_over_range [OF that w(2) deadzone] u by simp
    with u adc_to_unit_range [OF u] show ?thesis by blast
  qed
  have a: "parse_packet (csv4 f1 f2 fx fy)
           = Inr (Some (dec_value f1, dec_value f2, dec_value fx, dec_value fy))"
    by (rule parse_packet_accepts_digits [OF digits lengths])
  have b: "\<exists>u. adc_to_unit v d = Inr u \<and> - 1 \<le> u \<and> u \<le> 1" if "0 \<le> v \<and> v < float_limit"
    using range [of v] that by blast
  have c: "adc_to_unit v d = Inr 1" if "65535 < v \<and> v < float_limit"
    using adc_to_unit_over_range [of v d] that deadzone by simp
  have e: "adc_to_unit v d = Inl OverflowError" if "float_limit \<le> v"
    using that by (rule adc_to_unit_overflow)
  have f: "0 \<le> x_raw \<and> x_raw < float_limit \<and> 0 \<le> y_raw \<and> y_raw < float_limit
                \<and> (\<exists>ux uy. adc_to_unit x_raw d = Inr ux \<and> adc_to_unit y_raw d = Inr uy
                      \<and> - 1 \<le> ux \<and> ux \<le> 1 \<and> - 1 \<le> uy \<and> uy \<le> 1
                      \<and> (65535 < x_raw \<longrightarrow> ux = 1) \<and> (65535 < y_raw \<longrightarrow> uy = 1))"
    if p: "parse_packet (recvfrom 256 payload) = Inr (Some (b1, b2, x_raw, y_raw))"
  proof -
    from received_reading_bound [OF p]
    have r: "0 \<le> x_raw" "x_raw < float_limit" "0 \<le> y_raw" "y_raw < float_limit" by simp_all
    from range [OF r(1,2)] range [OF r(3,4)] r show ?thesis by blast
  qed
  from a b c e f show ?thesis by blast
qed

theorem over_range_axis_saturates_below_float_limit_witness:
  "ascii_digits [0x31] \<and> ascii_digits [0x36, 0x35, 0x35, 0x33, 0x36]
   \<and> ascii_digits [0x39, 0x39, 0x39, 0x39, 0x39, 0x39, 0x39]
   \<and> length [0x31 :: byte] \<le> int_max_str_digits
   \<and> length [0x36, 0x35, 0x35, 0x33, 0x36 :: byte] \<le> int_max_str_digits
   \<and> length [0x39, 0x39, 0x39, 0x39, 0x39, 0x39, 0x39 :: byte] \<le> int_max_str_digits
   \<and> 0 \<le> (2 / 25 :: real) \<and> (2 / 25 :: real) \<le> 1
   \<and> parse_packet (csv4 [0x31] [0x31] [0x36, 0x35, 0x35, 0x33, 0x36]
                      [0x39, 0x39, 0x39, 0x39, 0x39, 0x39, 0x39])
       = Inr (Some (1, 1, 65536, 9999999))
   \<and> (65535 :: int) < 65536 \<and> (65536 :: int) < float_limit
   \<and> adc_to_unit 65536 (2 / 25) = Inr 1
   \<and> float_limit \<le> 2 ^ 1024
   \<and> adc_to_unit (2 ^ 1024) (2 / 25) = Inl OverflowError"
proof -
  have d: "ascii_digits [0x31]" "ascii_digits [0x31]" "ascii_digits [0x36, 0x35, 0x35, 0x33, 0x36]"
    "ascii_digits [0x39, 0x39, 0x39, 0x39, 0x39, 0x39, 0x39]"
    by (simp_all add: ascii_digits_def)
  have l: "length [0x31 :: byte] \<le> int_max_str_digits"
    "length [0x31 :: byte] \<le> int_max_str_digits"
    "length [0x36, 0x35, 0x35, 0x33, 0x36 :: byte] \<le> int_max_str_digits"
    "length [0x39, 0x39, 0x39, 0x39, 0x39, 0x39, 0x39 :: byte] \<le> int_max_str_digits"
    by (simp_all add: int_max_str_digits_def)
  have z: "0 \<le> (2 / 25 :: real)" "(2 / 25 :: real) \<le> 1" by simp_all
  have v: "dec_value [0x31] = 1" "dec_value [0x36, 0x35, 0x35, 0x33, 0x36] = 65536"
    "dec_value [0x39, 0x39, 0x39, 0x39, 0x39, 0x39, 0x39] = 9999999"
    by (simp_all add: dec_value_def)
  have b: "(65536 :: int) < float_limit" "float_limit \<le> 2 ^ 1024"
    by (simp_all add: float_limit_def)
  note t = over_range_axis_saturates_below_float_limit [OF d l z]
  from t [of 65536] t [of "2 ^ 1024"] v b d l z show ?thesis by simp
qed

theorem over_range_axis_overflow_counterexample:
  "parse_packet (csv4 [0x31] [0x31] [0x31] (replicate 310 0x39))
     = Inr (Some (1, 1, 1, 10 ^ 310 - 1))
   \<and> 65535 < (10 :: int) ^ 310 - 1
   \<and> 0 \<le> (2 / 25 :: real) \<and> (2 / 25 :: real) \<le> 1
   \<and> adc_to_unit (10 ^ 310 - 1) (2 / 25) = Inl OverflowError"
proof -
  have d: "ascii_digits [0x31]" by (simp add: ascii_digits_def)
  have n: "ascii_digits (replicate 310 0x39)" by (rule ascii_digits_nines) simp
  have l: "length [0x31 :: byte] \<le> int_max_str_digits"
    "length (replicate 310 (0x39 :: byte)) \<le> int_max_str_digits"
    by (simp_all add: int_max_str_digits_def)
  have v: "dec_value [0x31] = 1" by (simp add: dec_value_def)
  have p: "parse_packet (csv4 [0x31] [0x31] [0x31] (replicate 310 0x39))
     = Inr (Some (1, 1, 1, 10 ^ 310 - 1))"
    using parse_packet_accepts_digits [OF d d d n l(1) l(1) l(1) l(2)]
    by (simp only: v dec_value_nines)
  have f: "float_limit \<le> 10 ^ 310 - 1" by (simp add: float_limit_def)
  have o: "adc_to_unit (10 ^ 310 - 1) (2 / 25) = Inl OverflowError"
    using f by (rule adc_to_unit_overflow)
  have g: "65535 < (10 :: int) ^ 310 - 1" by simp
  show ?thesis using p o g by simp
qed

text \<open>
  Claim C10: the failsafe is not latched. A receive timeout beyond the failsafe window
  puts the actuators in the safe state; as long as only receive timeouts and dropped
  datagrams follow, every receive timeout makes the calls of \<^verbatim>\<open>stop_all\<close> again and the
  actuators stay in the safe state; and the next reading makes its motor and servo calls
  from that state as from any other, with nothing to reset: they are followed by the
  calls of the failsafe check only when that check trips between the two clock readings
  of the pass.
\<close>

theorem failsafe_not_latched:
  assumes trip: "now - last_ok st > failsafe cfg"
    and quiet: "list_all (silent cfg (last_ok st)) evs"
    and rd: "parse_packet (recvfrom 256 payload) = Inr (Some (b1, b2, x_raw, y_raw))"
  shows "\<exists>st1 st2 st3 ux uy rest.
           iteration cfg st (Timeout now) = Inr st1 \<and> safe_state (pi st1)
         \<and> calls (pi st1) = calls (pi st) @ stop_all_calls
         \<and> run cfg st1 evs = Inr st2 \<and> safe_state (pi st2) \<and> last_ok st2 = last_ok st
         \<and> calls (pi st2) = calls (pi st1) @ concat (map tick_calls evs)
         \<and> adc_to_unit x_raw (deadzone cfg) = Inr ux \<and> adc_to_unit y_raw (deadzone cfg) = Inr uy
         \<and> iteration cfg st2 (Datagram payload t_ok t_chk) = Inr st3 \<and> last_ok st3 = t_ok
         \<and> calls (pi st3) = calls (pi st2)
             @ reading_calls cfg b1 b2 (apply_expo ux (expo cfg)) (apply_expo uy (expo cfg)) @ rest
         \<and> (rest = [] \<or> rest = stop_all_calls)
         \<and> (t_chk - t_ok \<le> failsafe cfg
              \<longrightarrow> rest = []
                  \<and> pi st3 = drive cfg b1 b2 (apply_expo ux (expo cfg))
                               (apply_expo uy (expo cfg)) (pi st2))"
proof -
  let ?s1 = "st\<lparr>pi := stop_all (pi st)\<rparr>"
  have 1: "iteration cfg st (Timeout now) = Inr ?s1" using trip by (simp add: iteration_timeout)
  have s1: "safe_state (pi ?s1)" by (simp add: safe_state_stop_all)
  have c1: "calls (pi ?s1) = calls (pi st) @ stop_all_calls" by (simp add: calls_stop_all)
  have "list_all (silent cfg (last_ok ?s1)) evs" using quiet by simp
  from run_silent [OF this] s1 obtain st2 where
    2: "run cfg ?s1 evs = Inr st2" "last_ok st2 = last_ok st"
       "calls (pi st2) = calls (pi ?s1) @ concat (map tick_calls evs)" "safe_state (pi st2)"
    by auto
  from iteration_reading [OF rd, of cfg st2 t_ok t_chk]
  obtain ux uy where u: "adc_to_unit x_raw (deadzone cfg) = Inr ux"
      "adc_to_unit y_raw (deadzone cfg) = Inr uy"
    and 3: "iteration cfg st2 (Datagram payload t_ok t_chk)
      = Inr \<lparr>pi = (if t_chk - t_ok > failsafe cfg
                   then stop_all (drive cfg b1 b2 (apply_expo ux (expo cfg))
                                    (apply_expo uy (expo cfg)) (pi st2))
                   else drive cfg b1 b2 (apply_expo ux (expo cfg))
                          (apply_expo uy (expo cfg)) (pi st2)),
             last_ok = t_ok\<rparr>"
    by blast
  let ?d = "drive cfg b1 b2 (apply_expo ux (expo cfg)) (apply_expo uy (expo cfg)) (pi st2)"
  let ?p3 = "if t_chk - t_ok > failsafe cfg then stop_all ?d else ?d"
  let ?rest = "if t_chk - t_ok > failsafe cfg then stop_all_calls else []"
  have c3: "calls ?p3 = calls (pi st2)
      @ reading_calls cfg b1 b2 (apply_expo ux (expo cfg)) (apply_expo uy (expo cfg)) @ ?rest"
    by (simp add: calls_stop_all calls_drive_exact)
  show ?thesis
    by (intro exI [of _ ?s1] exI [of _ st2] exI [of _ "\<lparr>pi = ?p3, last_ok = t_ok\<rparr>"]
        exI [of _ ux] exI [of _ uy] exI [of _ ?rest])
      (use 1 s1 c1 2 u 3 c3 in simp)
qed

theorem failsafe_not_latched_witness:
  "7 / 10 - last_ok (startup defaults fresh_pi 0) > failsafe defaults
   \<and> list_all (silent defaults (last_ok (startup defaults fresh_pi 0)))
        [Timeout (4 / 5), Datagram [0x61, 0x62, 0x63] (17 / 20) (17 / 20), Timeout (19 / 20)]
   \<and> parse_packet (recvfrom 256 [0x30, 0x2C, 0x31, 0x2C, 0x30, 0x2C, 0x30]) = Inr (Some (0, 1, 0, 0))
   \<and> (\<exists>st1 st2 st3.
         iteration defaults (startup defaults fresh_pi 0) (Timeout (7 / 10)) = Inr st1
       \<and> safe_state (pi st1)
       \<and> run defaults st1
           [Timeout (4 / 5), Datagram [0x61, 0x62, 0x63] (17 / 20) (17 / 20), Timeout (19 / 20)]
           = Inr st2
       \<and> safe_state (pi st2)
       \<and> calls (pi st2) = calls (pi st1) @ stop_all_calls @ stop_all_calls
       \<and> iteration defaults st2 (Datagram [0x30, 0x2C, 0x31, 0x2C, 0x30, 0x2C, 0x30] 1 1) = Inr st3
       \<and> last_ok st3 = 1
       \<and> calls (pi st3) = calls (pi st2) @ reading_calls defaults 0 1 (- 1) (- 1)
       \<and> pi st3 = drive defaults 0 1 (- 1) (- 1) (pi st2))"
proof -
  have trip: "7 / 10 - last_ok (startup defaults fresh_pi 0) > failsafe defaults"
    by (simp add: startup_def defaults_def Let_def)
  have a: "parse_packet (recvfrom 256 [0x61, 0x62, 0x63]) = Inr None"
    by (simp add: decoder_eval)
  have quiet: "list_all (silent defaults (last_ok (startup defaults fresh_pi 0)))
        [Timeout (4 / 5), Datagram [0x61, 0x62, 0x63] (17 / 20) (17 / 20), Timeout (19 / 20)]"
    using a by (simp add: startup_def defaults_def Let_def)
  have rd: "parse_packet (recvfrom 256 [0x30, 0x2C, 0x31, 0x2C, 0x30, 0x2C, 0x30]) = Inr (Some (0, 1, 0, 0))"
    by (simp add: decoder_eval)
  have quick: "(1 :: real) - 1 \<le> failsafe defaults" by (simp add: defaults_def)
  have v: "adc_to_unit 0 (deadzone defaults) = Inr (- 1)"
    by (simp add: adc_to_unit_def to_float_def float_limit_def defaults_def)
  have e: "apply_expo (- 1) (expo defaults) = - 1"
    by (simp add: apply_expo_def defaults_def)
  from failsafe_not_latched [OF trip quiet rd, of 1 1] v e quick
  show ?thesis using trip quiet rd by auto
qed

end
